theory Spec2Isabelle
  imports Complex_Main "HOL-Library.AList" "HOL-Library.Multiset" "HOL-Library.Sublist"
begin

section \<open>Dynamic values and documents\<close>

text \<open>
  The Go code handles JSON-like documents as \<^verbatim>\<open>map[string]interface{}\<close>.  A value of
  type \<^verbatim>\<open>interface{}\<close> is, in this repository, one of: \<^verbatim>\<open>nil\<close>, a \<^verbatim>\<open>bool\<close>, a number, a
  \<^verbatim>\<open>string\<close>, a \<^verbatim>\<open>map[string]interface{}\<close>, a \<^verbatim>\<open>[]interface{}\<close> (what the JSON decoder
  produces for an array) or a \<^verbatim>\<open>[]map[string]interface{}\<close> (what the upload code builds
  for \<^verbatim>\<open>files\<close> and \<^verbatim>\<open>relationships\<close>).  The last two are different dynamic types: a type
  assertion to one fails on the other.

  A number keeps its dynamic type.  The documents of this repository hold numbers of
  two types: \<^verbatim>\<open>float64\<close>, which the JSON decoder produces for every number, and \<^verbatim>\<open>int64\<close>,
  which the upload code stores as the size of a file.  Two values of type \<^verbatim>\<open>interface{}\<close>
  are equal, and are the same key of a map keyed by \<^verbatim>\<open>interface{}\<close>, only when their
  dynamic types are the same: \<^verbatim>\<open>int64(1)\<close> and \<^verbatim>\<open>float64(1)\<close> are two keys, as \<open>VInt64 1\<close>
  and \<open>VFloat64 1\<close> are two values.  A \<^verbatim>\<open>float64\<close> is the rational number it stands for:
  the JSON decoder produces no infinity and no NaN, and the code modelled here only
  copies and compares numbers (negative zero is the same key as zero).

  A Go map is an association list whose keys are distinct; \<open>map_of\<close> reads it and
  \<open>AList.update\<close> writes it.  The position of a field in the list carries no meaning.
\<close>

datatype val =
    VNull
  | VBool bool
  | VInt64 int
  | VFloat64 rat
  | VStr string
  | VMap "(string \<times> val) list"
  | VSlice "val list"
  | VMaps "(string \<times> val) list list"

type_synonym doc = "(string \<times> val) list"

text \<open>\<^verbatim>\<open>MergeConfig\<close> is a map type, so a value of it may be \<^verbatim>\<open>nil\<close> (\<open>None\<close>).\<close>

type_synonym MergeConfig = "(string \<rightharpoonup> string) option"

text \<open>The index built by \<^verbatim>\<open>mergeArrayOfMapsByKey\<close>: \<^verbatim>\<open>map[interface{}]map[string]interface{}\<close>.\<close>

type_synonym index = "(val \<times> doc) list"

text \<open>
  Go leaves the order in which \<^verbatim>\<open>range\<close> visits a map unspecified.  Where that order
  reaches the result (the slice built from the index), the model takes the order as a
  parameter: a function that rearranges the entries of the index.
\<close>

type_synonym rangeOrder = "index \<Rightarrow> index"

fun isMap :: "val \<Rightarrow> bool" where
  "isMap (VMap m) = True"
| "isMap v = False"

fun isSlice :: "val \<Rightarrow> bool" where
  "isSlice (VSlice xs) = True"
| "isSlice v = False"

fun looksLikeArrayOfMaps :: "val list \<Rightarrow> bool" where
  "looksLikeArrayOfMaps [] = True"
| "looksLikeArrayOfMaps (item # rest) = (if \<not> isMap item then False else looksLikeArrayOfMaps rest)"

text \<open>
  A map with key type \<^verbatim>\<open>interface{}\<close> panics at run time (``hash of unhashable type'')
  when it is read or written at a key whose dynamic type is a map or a slice.
\<close>

fun hashable :: "val \<Rightarrow> bool" where
  "hashable (VMap m) = False"
| "hashable (VSlice xs) = False"
| "hashable (VMaps ms) = False"
| "hashable v = True"

section \<open>The merge utility\<close>

text \<open>
  First loop of \<^verbatim>\<open>mergeArrayOfMapsByKey\<close>: index the elements of \<^verbatim>\<open>arr1\<close> by the value
  of the key.  An element that is not a map, or has no such field, is passed over.
  \<open>None\<close> is the run-time panic.
\<close>

fun indexByKey :: "string \<Rightarrow> val list \<Rightarrow> index \<Rightarrow> index option" where
  "indexByKey key [] index = Some index"
| "indexByKey key (VMap m # rest) index =
     (case map_of m key of
        None \<Rightarrow> indexByKey key rest index
      | Some kv \<Rightarrow>
          if hashable kv then indexByKey key rest (AList.update kv m index) else None)"
| "indexByKey key (item # rest) index = indexByKey key rest index"

text \<open>
  \<^verbatim>\<open>MergeMaps\<close> copies \<^verbatim>\<open>map1\<close> (here \<open>mapA\<close>) into \<^verbatim>\<open>result\<close> and then ranges over
  \<^verbatim>\<open>map2\<close> (here \<open>mapB\<close>, in \<open>MergeMaps_range\<close>); the \<^verbatim>\<open>switch\<close> that chooses the new value of a field is
  \<open>MergeMaps_switch\<close>, given the value found in \<^verbatim>\<open>result\<close> (\<open>None\<close> when the field does not
  exist there).  \<open>mergeByKey\<close> is the second loop of \<^verbatim>\<open>mergeArrayOfMapsByKey\<close>.
  Every function returns \<open>None\<close> when the Go code panics.  The fields of \<^verbatim>\<open>map2\<close> are
  visited in the order of the list; as each field is visited once and only that field
  of \<^verbatim>\<open>result\<close> is written, another order gives the same map.
\<close>

function (sequential)
    MergeMaps :: "rangeOrder \<Rightarrow> doc \<Rightarrow> doc \<Rightarrow> MergeConfig \<Rightarrow> doc option"
and MergeMaps_range :: "rangeOrder \<Rightarrow> doc \<Rightarrow> doc \<Rightarrow> MergeConfig \<Rightarrow> doc option"
and MergeMaps_switch :: "rangeOrder \<Rightarrow> string \<Rightarrow> val option \<Rightarrow> val \<Rightarrow> MergeConfig \<Rightarrow> val option"
and mergeArrayOfMapsByKey ::
      "rangeOrder \<Rightarrow> val list \<Rightarrow> val list \<Rightarrow> string \<Rightarrow> MergeConfig \<Rightarrow> val list option"
and mergeByKey ::
      "rangeOrder \<Rightarrow> index \<Rightarrow> val list \<Rightarrow> string \<Rightarrow> MergeConfig \<Rightarrow> index option"
where
  "MergeMaps ro mapA mapB cfg = MergeMaps_range ro mapA mapB cfg"
| "MergeMaps_range ro result [] cfg = Some result"
| "MergeMaps_range ro result ((k, v2) # rest) cfg =
     (case MergeMaps_switch ro k (map_of result k) v2 cfg of
        None \<Rightarrow> None
      | Some v \<Rightarrow> MergeMaps_range ro (AList.update k v result) rest cfg)"
| "MergeMaps_switch ro k (Some (VMap m1)) (VMap m2) cfg =
     (case MergeMaps ro m1 m2 cfg of None \<Rightarrow> None | Some m \<Rightarrow> Some (VMap m))"
| "MergeMaps_switch ro k (Some (VSlice arr1)) (VSlice arr2) cfg =
     (case cfg of
        None \<Rightarrow> Some (VSlice arr2)
      | Some c \<Rightarrow>
          (case c k of
             None \<Rightarrow> Some (VSlice arr2)
           | Some mergeKey \<Rightarrow>
               if looksLikeArrayOfMaps arr1 \<and> looksLikeArrayOfMaps arr2
               then (case mergeArrayOfMapsByKey ro arr1 arr2 mergeKey cfg of
                       None \<Rightarrow> None
                     | Some arr \<Rightarrow> Some (VSlice arr))
               else Some (VSlice arr2)))"
| "MergeMaps_switch ro k v1 v2 cfg = Some v2"
| "mergeArrayOfMapsByKey ro arr1 arr2 key cfg =
     (case indexByKey key arr1 [] of
        None \<Rightarrow> None
      | Some index \<Rightarrow>
          (case mergeByKey ro index arr2 key cfg of
             None \<Rightarrow> None
           | Some index' \<Rightarrow> Some (map (\<lambda>(kv, m). VMap m) (ro index'))))"
| "mergeByKey ro index [] key cfg = Some index"
| "mergeByKey ro index (VMap m # rest) key cfg =
     (case map_of m key of
        None \<Rightarrow> mergeByKey ro index rest key cfg
      | Some kv \<Rightarrow>
          if \<not> hashable kv then None
          else (case map_of index kv of
                  Some existing \<Rightarrow>
                    (case MergeMaps ro existing m cfg of
                       None \<Rightarrow> None
                     | Some merged \<Rightarrow> mergeByKey ro (AList.update kv merged index) rest key cfg)
                | None \<Rightarrow> mergeByKey ro (AList.update kv m index) rest key cfg))"
| "mergeByKey ro index (item # rest) key cfg = mergeByKey ro index rest key cfg"
  by pat_completeness auto

termination
  by (relation "measure (\<lambda>x. case x of
        Inl (Inl (ro, mapA, mapB, cfg)) \<Rightarrow> 3 * size_list (size_prod (\<lambda>k. 0) size) mapB + 1
      | Inl (Inr (ro, result, mapB, cfg)) \<Rightarrow> 3 * size_list (size_prod (\<lambda>k. 0) size) mapB
      | Inr (Inl (ro, k, v1, v2, cfg)) \<Rightarrow> 3 * size v2
      | Inr (Inr (Inl (ro, arr1, arr2, key, cfg))) \<Rightarrow> 3 * size_list size arr2 + 1
      | Inr (Inr (Inr (ro, index, arr2, key, cfg))) \<Rightarrow> 3 * size_list size arr2)")
     auto

declare MergeMaps.simps [simp del]

text \<open>
  What the keyed merge is compared with: the elements of an array that are maps and
  carry the key, each with the value of its key, in the order of the array.
\<close>

fun keyedElems :: "string \<Rightarrow> val list \<Rightarrow> index" where
  "keyedElems key [] = []"
| "keyedElems key (VMap m # rest) =
     (case map_of m key of
        None \<Rightarrow> keyedElems key rest
      | Some kv \<Rightarrow> (kv, m) # keyedElems key rest)"
| "keyedElems key (item # rest) = keyedElems key rest"

text \<open>The two arrays of the specification's example.\<close>

definition exampleBase :: "val list" where
  "exampleBase =
     [VMap [(''name'', VStr ''a''), (''v'', VFloat64 1)], VMap [(''name'', VStr ''b''), (''v'', VFloat64 2)]]"

definition exampleOverlay :: "val list" where
  "exampleOverlay =
     [VMap [(''name'', VStr ''b''), (''v'', VFloat64 3)], VMap [(''name'', VStr ''c''), (''v'', VFloat64 4)]]"

text \<open>
  Two arrays whose elements of the same key hold a nested document: the base element
  has the fields \<^verbatim>\<open>v\<close> and \<^verbatim>\<open>meta.x\<close> that the overlay element lacks, and both have
  \<^verbatim>\<open>meta.y\<close>.
\<close>

definition nestedBase :: "val list" where
  "nestedBase =
     [VMap [(''name'', VStr ''b''), (''v'', VFloat64 2),
            (''meta'', VMap [(''x'', VFloat64 1), (''y'', VFloat64 2)])]]"

definition nestedOverlay :: "val list" where
  "nestedOverlay =
     [VMap [(''name'', VStr ''b''), (''meta'', VMap [(''y'', VFloat64 3)])]]"

text \<open>
  A value is well formed when every map in it has distinct keys, as every Go map has.
\<close>

fun wellformed :: "val \<Rightarrow> bool" where
  "wellformed (VMap m) = (distinct (map fst m) \<and> (\<forall>(k, v) \<in> set m. wellformed v))"
| "wellformed (VSlice xs) = (\<forall>x \<in> set xs. wellformed x)"
| "wellformed (VMaps ms) =
     (\<forall>m \<in> set ms. distinct (map fst m) \<and> (\<forall>(k, v) \<in> set m. wellformed v))"
| "wellformed v = True"

text \<open>
  \<open>ruleApplies cfg k arr\<close>: the configuration names the field \<open>k\<close> and the array looks
  like an array of maps, so that \<^verbatim>\<open>MergeMaps\<close> would hand it to the keyed merge.
  \<open>unkeyed cfg k v\<close>: no array inside the field \<open>k\<close> with value \<open>v\<close> (at any depth of
  nested maps) is one the configuration's rules apply to.
\<close>

fun ruleApplies :: "MergeConfig \<Rightarrow> string \<Rightarrow> val list \<Rightarrow> bool" where
  "ruleApplies None k arr = False"
| "ruleApplies (Some c) k arr = (c k \<noteq> None \<and> looksLikeArrayOfMaps arr)"

fun unkeyed :: "MergeConfig \<Rightarrow> string \<Rightarrow> val \<Rightarrow> bool" where
  "unkeyed cfg k (VMap m) = (\<forall>(k', v) \<in> set m. unkeyed cfg k' v)"
| "unkeyed cfg k (VSlice arr) = (\<not> ruleApplies cfg k arr)"
| "unkeyed cfg k v = True"

text \<open>
  \<open>isMergeKey cfg key\<close>: the configuration names \<open>key\<close> as the merge key of some
  field.  \<open>keysScalar isKey v\<close>: no document inside \<open>v\<close> holds a document or an array
  at a field that is a merge key, so that no index is asked to hash one.
\<close>

definition isMergeKey :: "MergeConfig \<Rightarrow> string \<Rightarrow> bool" where
  "isMergeKey cfg key = (case cfg of None \<Rightarrow> False | Some c \<Rightarrow> (\<exists>f. c f = Some key))"

fun keysScalar :: "(string \<Rightarrow> bool) \<Rightarrow> val \<Rightarrow> bool" where
  "keysScalar isKey (VMap m) = (\<forall>(k, v) \<in> set m. (isKey k \<longrightarrow> hashable v) \<and> keysScalar isKey v)"
| "keysScalar isKey (VSlice xs) = (\<forall>x \<in> set xs. keysScalar isKey x)"
| "keysScalar isKey v = True"
section \<open>Machine integers and the clock\<close>

text \<open>
  \<^verbatim>\<open>int64\<close> (and \<^verbatim>\<open>int\<close>, on a 64-bit platform) is an \<open>int\<close> kept in range by \<open>wrap64\<close>
  wherever the Go code adds.
\<close>

definition wrap64 :: "int \<Rightarrow> int" where
  "wrap64 x = (x + 2 ^ 63) mod 2 ^ 64 - 2 ^ 63"

text \<open>
  A \<^verbatim>\<open>time.Time\<close> is the number of nanoseconds since Go's zero time, so that the zero
  value of a \<^verbatim>\<open>time.Time\<close> field is \<open>0\<close>.  A \<^verbatim>\<open>time.Duration\<close> is an \<^verbatim>\<open>int64\<close> of
  nanoseconds, and \<^verbatim>\<open>Time.Sub\<close> saturates at the largest and smallest duration.  For
  the progress aggregator and the progress writer the clock is read by the caller of
  the model: each \<^verbatim>\<open>time.Now()\<close> of their code is an argument.
\<close>

type_synonym time = int
type_synonym duration = int

definition maxDuration :: duration where
  "maxDuration = 2 ^ 63 - 1"

definition minDuration :: duration where
  "minDuration = - (2 ^ 63)"

definition time_Sub :: "time \<Rightarrow> time \<Rightarrow> duration" where
  "time_Sub t u =
     (if t - u > maxDuration then maxDuration
      else if t - u < minDuration then minDuration
      else t - u)"

definition Millisecond :: duration where
  "Millisecond = 1000000"

section \<open>The progress aggregator\<close>

record globalProgress =
  totalKnown :: bool
  totalBytes :: int
  doneBytes :: int
  spinIdx :: int
  lastTick :: time

definition spinner :: "char list" where
  "spinner = [CHR ''|'', CHR ''/'', CHR ''-'', CHR 0x5C]"

definition add :: "globalProgress \<Rightarrow> int \<Rightarrow> globalProgress" where
  "add gp delta = gp\<lparr>doneBytes := wrap64 (doneBytes gp + delta)\<rparr>"

text \<open>
  What \<^verbatim>\<open>render\<close> prints, as data: the percentage with the two byte counts handed to
  \<^verbatim>\<open>human\<close>, or the spinner character with the byte count.  The percentage is the
  \<^verbatim>\<open>float64\<close> expression \<^verbatim>\<open>float64(done) / float64(total) * 100\<close>, taken here in exact
  rational arithmetic; it is the literal \<open>100\<close> in the clamping branch.  The text that
  \<^verbatim>\<open>human\<close> and \<^verbatim>\<open>Fprintf\<close> make of the numbers is not modelled.
\<close>

datatype progressLine =
    PercentLine rat int int
  | SpinnerLine char int

text \<open>Go's \<^verbatim>\<open>%\<close> truncates towards zero: the remainder has the sign of the dividend.\<close>

definition go_rem :: "int \<Rightarrow> int \<Rightarrow> int" where
  "go_rem a b = sgn a * (\<bar>a\<bar> mod \<bar>b\<bar>)"

text \<open>
  \<^verbatim>\<open>render(force)\<close>.  \<open>nowSince\<close> is the clock read by \<^verbatim>\<open>time.Since\<close>, \<open>nowTick\<close> the
  one stored in \<^verbatim>\<open>lastTick\<close>.  The result is the aggregator after the call and the line
  printed, if any; \<open>None\<close> is the index-out-of-range panic of \<^verbatim>\<open>spinner[...]\<close> at a
  negative remainder.
\<close>

definition render ::
  "bool \<Rightarrow> time \<Rightarrow> time \<Rightarrow> globalProgress \<Rightarrow> (globalProgress \<times> progressLine option) option" where
  "render force nowSince nowTick gp =
     (if \<not> force \<and> time_Sub nowSince (lastTick gp) < 100 * Millisecond then Some (gp, None)
      else
        let gp1 = gp\<lparr>lastTick := nowTick\<rparr> in
        if totalKnown gp1 \<and> totalBytes gp1 > 0 then
          (if doneBytes gp1 > totalBytes gp1
           then Some (gp1\<lparr>doneBytes := totalBytes gp1\<rparr>,
                      Some (PercentLine 100 (totalBytes gp1) (totalBytes gp1)))
           else Some (gp1,
                      Some (PercentLine (of_int (doneBytes gp1) / of_int (totalBytes gp1) * 100)
                              (doneBytes gp1) (totalBytes gp1))))
        else
          (let r = go_rem (spinIdx gp1) (int (length spinner)) in
           if r < 0 then None
           else Some (gp1\<lparr>spinIdx := wrap64 (spinIdx gp1 + 1)\<rparr>,
                      Some (SpinnerLine (spinner ! nat r) (doneBytes gp1)))))"

text \<open>The aggregator of the specification's example: a known total of 100 bytes.\<close>

definition exampleProgress :: globalProgress where
  "exampleProgress =
     \<lparr>totalKnown = True, totalBytes = 100, doneBytes = 0, spinIdx = 0, lastTick = 0\<rparr>"

section \<open>The progress writer of the object store adapter\<close>

text \<open>
  \<^verbatim>\<open>progressWriter\<close>.  The callback \<^verbatim>\<open>onProgress\<close> acts on what its closure captured,
  a state of type \<open>'s\<close>; \<open>None\<close> is the \<^verbatim>\<open>nil\<close> function.
\<close>

record 's progressWriter =
  pw_key :: string
  pw_total :: int
  pw_written :: int
  pw_lastEmit :: time
  pw_interval :: duration
  pw_onProgress :: "(string \<Rightarrow> int \<Rightarrow> int \<Rightarrow> 's \<Rightarrow> 's) option"

text \<open>
  \<^verbatim>\<open>Write(p)\<close> on \<open>n = len(p)\<close> bytes at clock reading \<open>now\<close>: the number it returns (the
  error is always \<^verbatim>\<open>nil\<close>), the writer and the callback's state afterwards.
\<close>

definition Write ::
  "nat \<Rightarrow> time \<Rightarrow> 's progressWriter \<Rightarrow> 's \<Rightarrow> int \<times> 's progressWriter \<times> 's" where
  "Write n now pw s =
     (let pw1 = pw\<lparr>pw_written := wrap64 (pw_written pw + int n)\<rparr> in
      case pw_onProgress pw1 of
        None \<Rightarrow> (int n, pw1, s)
      | Some f \<Rightarrow>
          if pw_written pw1 = pw_total pw1 \<or> time_Sub now (pw_lastEmit pw1) \<ge> pw_interval pw1
          then (int n, pw1\<lparr>pw_lastEmit := now\<rparr>, f (pw_key pw1) (pw_written pw1) (pw_total pw1) s)
          else (int n, pw1, s))"

text \<open>
  The writer that \<^verbatim>\<open>UploadFileWithProgress\<close> and \<^verbatim>\<open>DownloadFileWithProgress\<close> build:
  nothing written, the zero time as last emission, an interval of 250 ms, and the hook's
  \<^verbatim>\<open>OnProgress\<close> (\<open>None\<close> for a \<^verbatim>\<open>nil\<close> hook or a \<^verbatim>\<open>nil\<close> callback).
\<close>

definition newProgressWriter ::
  "string \<Rightarrow> int \<Rightarrow> (string \<Rightarrow> int \<Rightarrow> int \<Rightarrow> 's \<Rightarrow> 's) option \<Rightarrow> 's progressWriter" where
  "newProgressWriter key totalSize hook =
     \<lparr>pw_key = key, pw_total = totalSize, pw_written = 0, pw_lastEmit = 0,
      pw_interval = 250 * Millisecond, pw_onProgress = hook\<rparr>"

text \<open>
  The transfer copies through \<^verbatim>\<open>io.TeeReader(src, pw)\<close>: every chunk read from the source
  is written to the progress writer.  The chunks are given by their lengths, each with
  the clock reading of its \<^verbatim>\<open>Write\<close>.
\<close>

fun teeWrites :: "(nat \<times> time) list \<Rightarrow> 's progressWriter \<Rightarrow> 's \<Rightarrow> 's progressWriter \<times> 's" where
  "teeWrites [] pw s = (pw, s)"
| "teeWrites ((n, now) # rest) pw s =
     (case Write n now pw s of (m, pw', s') \<Rightarrow> teeWrites rest pw' s')"

text \<open>
  \<^verbatim>\<open>ProgressHook\<close>: three callbacks, each of which may be \<^verbatim>\<open>nil\<close>, acting on the state
  \<open>'s\<close> their closures captured.  The adapter gets a pointer to a hook, which may be
  \<^verbatim>\<open>nil\<close> too.  \<open>callOnStart\<close> and \<open>callOnDone\<close> are the guarded calls
  \<^verbatim>\<open>if hook != nil && hook.OnStart != nil { hook.OnStart(key, total) }\<close> and its like;
  \<open>hookOnProgress\<close> is what the adapter stores in the writer.
\<close>

record 's ProgressHook =
  ph_OnStart :: "(string \<Rightarrow> int \<Rightarrow> 's \<Rightarrow> 's) option"
  ph_OnProgress :: "(string \<Rightarrow> int \<Rightarrow> int \<Rightarrow> 's \<Rightarrow> 's) option"
  ph_OnDone :: "(string \<Rightarrow> int \<Rightarrow> duration \<Rightarrow> 's \<Rightarrow> 's) option"

definition callOnStart :: "'s ProgressHook option \<Rightarrow> string \<Rightarrow> int \<Rightarrow> 's \<Rightarrow> 's" where
  "callOnStart hook key totalSize s =
     (case hook of
        None \<Rightarrow> s
      | Some hk \<Rightarrow> (case ph_OnStart hk of None \<Rightarrow> s | Some f \<Rightarrow> f key totalSize s))"

definition hookOnProgress ::
  "'s ProgressHook option \<Rightarrow> (string \<Rightarrow> int \<Rightarrow> int \<Rightarrow> 's \<Rightarrow> 's) option" where
  "hookOnProgress hook = (case hook of None \<Rightarrow> None | Some hk \<Rightarrow> ph_OnProgress hk)"

definition callOnDone :: "'s ProgressHook option \<Rightarrow> string \<Rightarrow> int \<Rightarrow> duration \<Rightarrow> 's \<Rightarrow> 's" where
  "callOnDone hook key totalSize took s =
     (case hook of
        None \<Rightarrow> s
      | Some hk \<Rightarrow> (case ph_OnDone hk of None \<Rightarrow> s | Some f \<Rightarrow> f key totalSize took s))"

text \<open>
  The hooks that the upload and download helpers build print to the terminal and feed
  the progress line.  Nothing of that reaches what the helpers return, so the closures
  of these hooks have no state here.  The hooks of a directory transfer that is not
  verbose have no \<^verbatim>\<open>OnStart\<close>.
\<close>

definition terminalHook :: "bool \<Rightarrow> unit ProgressHook" where
  "terminalHook withStart =
     \<lparr>ph_OnStart = (if withStart then Some (\<lambda>k totalSize u. u) else None),
      ph_OnProgress = Some (\<lambda>k written totalSize u. u),
      ph_OnDone = Some (\<lambda>k totalSize took u. u)\<rparr>"

text \<open>A callback that records its calls, and the hook that has only this callback.\<close>

definition recordProgress :: "string \<Rightarrow> int \<Rightarrow> int \<Rightarrow> (string \<times> int \<times> int) list \<Rightarrow> (string \<times> int \<times> int) list" where
  "recordProgress k written tot calls = calls @ [(k, written, tot)]"

definition recordingHook :: "(string \<times> int \<times> int) list ProgressHook" where
  "recordingHook = \<lparr>ph_OnStart = None, ph_OnProgress = Some recordProgress, ph_OnDone = None\<rparr>"

text \<open>
  The cumulative byte counts after each write of a transfer, from a count \<open>w\<close> before
  the first: what the specification calls the bytes written so far.
\<close>

fun cumulative :: "int \<Rightarrow> nat list \<Rightarrow> int list" where
  "cumulative w [] = []"
| "cumulative w (n # ns) = wrap64 (w + int n) # cumulative (wrap64 (w + int n)) ns"

text \<open>
  The throttling rule in words, to compare the adapter with: of the cumulative counts
  of the writes of a transfer of \<open>tot\<close> bytes, the count of a write is reported when it
  equals the total, or when at least 250 ms have passed since the write last reported
  (\<open>lastEmit\<close>, the zero time before the first report).  \<open>w\<close> is the count before the
  first of the writes.
\<close>

fun reported :: "int \<Rightarrow> int \<Rightarrow> time \<Rightarrow> (nat \<times> time) list \<Rightarrow> int list" where
  "reported tot w lastEmit [] = []"
| "reported tot w lastEmit ((n, now) # rest) =
     (if wrap64 (w + int n) = tot \<or> 250 * Millisecond \<le> time_Sub now lastEmit
      then wrap64 (w + int n) # reported tot (wrap64 (w + int n)) now rest
      else reported tot (wrap64 (w + int n)) lastEmit rest)"

section \<open>Errors, collaborators and their trace\<close>

text \<open>
  A Go \<^verbatim>\<open>error\<close>: \<^verbatim>\<open>errors.New\<close> or \<^verbatim>\<open>fmt.Errorf\<close> with a plain message (\<open>ErrNew\<close>),
  \<^verbatim>\<open>fmt.Errorf("...: %w", err)\<close> (\<open>ErrWrap\<close>, the message before the colon), and the one
  message that also prints a map with \<^verbatim>\<open>%v\<close> (\<open>ErrWrapData\<close>).  An error that a
  collaborator returns is any value of the type.
\<close>

datatype error =
    ErrNew string
  | ErrWrap string error
  | ErrWrapData string doc error

text \<open>
  The calls that leave the process, to the Core API, to the object store and to the
  file system, in the order they are made.  The model appends one event per call; what
  a collaborator answers is a function of the calls made before (the trace) and of the
  arguments of the call.
\<close>

datatype event =
    HttpDo string string "string option"
  | HttpGet string
  | NewUUID
  | OsStat string
  | OsOpen string
  | OsCreate string
  | OsMkdirAll string
  | FileStat string
  | FileSeek string
  | FilepathWalk string
  | IoCopy string
  | S3ListObjectsV2 string string "string option"
  | S3GetObject string string
  | S3PutObject string string string
  | S3MultipartUpload string string string

type_synonym trace = "event list"

record FileInfo =
  fi_Name :: string
  fi_IsDir :: bool
  fi_Size :: int
  fi_ModTime :: time

text \<open>\<^verbatim>\<open>utils.ParsedPath\<close>, with the fields the code reads.\<close>

record ParsedPath =
  pp_Scheme :: string
  pp_Host :: string
  pp_Path :: string
  pp_Filename :: string

text \<open>
  An entry of a \<^verbatim>\<open>ListObjectsV2\<close> page: the three fields are pointers in the SDK, so each
  may be \<^verbatim>\<open>nil\<close>.
\<close>

record S3Object =
  obj_Key :: "string option"
  obj_Size :: "int option"
  obj_LastModified :: "time option"

record ListObjectsV2Output =
  out_Contents :: "S3Object list"
  out_NextContinuationToken :: "string option"

record S3File =
  sf_Path :: string
  sf_Name :: string
  sf_Size :: int
  sf_LastModified :: string

text \<open>
  The collaborators.  \<open>BuildURL\<close> and \<open>http_Do\<close> are the two methods of \<^verbatim>\<open>CoreHTTP\<close>,
  the Core resource client (\<open>http_Do\<close> gives the body or the error; the code modelled
  here does not read the status code); \<open>http_Get\<close> is \<^verbatim>\<open>http.Get\<close>;
  \<open>json_Unmarshal\<close> decodes into a \<^verbatim>\<open>map[string]interface{}\<close>; \<open>uuid_New\<close> is
  \<^verbatim>\<open>utils.UUIDv4NoDash\<close>; \<open>ParsePath\<close> is
  \<^verbatim>\<open>utils.ParsePath\<close>, whose source is not among the files; \<open>os_Open\<close> opens a file and
  gives the content type that \<^verbatim>\<open>http.DetectContentType\<close> finds in its first 512 bytes;
  \<open>filepath_Walk\<close> gives the visits of \<^verbatim>\<open>filepath.Walk\<close> in order, each with the path,
  the file information and the error handed to the walk function; \<open>io_Copy\<close> is the
  copy of a response body into the named local file; \<open>s3_GetObject\<close> gives the
  \<^verbatim>\<open>ContentLength\<close> of the output, a pointer; \<open>body_Reads\<close> gives the reads that a
  transfer started at a history makes of its body (the open file of a put, the response
  copied into the named local file of a get), each with the number of bytes read and the
  clock reading at the \<^verbatim>\<open>Write\<close> that the tee reader makes of them; \<open>time_Now\<close> is
  \<^verbatim>\<open>time.Now()\<close> at a history; \<open>rangeOrder\<close> is the order in
  which Go ranges over the index of a keyed merge.  The remaining fields are the
  library functions of the same names; those that neither read nor change anything
  outside the process take no trace.
\<close>

record env =
  BuildURL :: "string \<Rightarrow> string \<Rightarrow> string \<Rightarrow> (string \<times> string) list \<Rightarrow> string"
  http_Do :: "trace \<Rightarrow> string \<Rightarrow> string \<Rightarrow> string option \<Rightarrow> error + string"
  http_Get :: "trace \<Rightarrow> string \<Rightarrow> error option"
  json_Unmarshal :: "string \<Rightarrow> error + doc"
  json_Marshal :: "val \<Rightarrow> error + string"
  uuid_New :: "trace \<Rightarrow> string"
  ParsePath :: "string \<Rightarrow> error + ParsedPath"
  time_Format :: "string \<Rightarrow> time \<Rightarrow> string"
  os_Stat :: "trace \<Rightarrow> string \<Rightarrow> error + FileInfo"
  os_IsNotExist :: "error \<Rightarrow> bool"
  os_MkdirAll :: "trace \<Rightarrow> string \<Rightarrow> error option"
  os_Open :: "trace \<Rightarrow> string \<Rightarrow> error + string"
  os_Create :: "trace \<Rightarrow> string \<Rightarrow> error option"
  file_Stat :: "trace \<Rightarrow> string \<Rightarrow> error + FileInfo"
  file_Seek :: "trace \<Rightarrow> string \<Rightarrow> error option"
  io_Copy :: "trace \<Rightarrow> string \<Rightarrow> error option"
  filepath_Walk :: "trace \<Rightarrow> string \<Rightarrow> (string \<times> FileInfo \<times> error option) list"
  filepath_Rel :: "string \<Rightarrow> string \<Rightarrow> error + string"
  filepath_Join :: "string list \<Rightarrow> string"
  filepath_Dir :: "string \<Rightarrow> string"
  filepath_Base :: "string \<Rightarrow> string"
  filepath_Clean :: "string \<Rightarrow> string"
  filepath_ToSlash :: "string \<Rightarrow> string"
  s3_ListObjectsV2 ::
    "trace \<Rightarrow> string \<Rightarrow> string \<Rightarrow> int option \<Rightarrow> string option \<Rightarrow> error + ListObjectsV2Output"
  s3_GetObject :: "trace \<Rightarrow> string \<Rightarrow> string \<Rightarrow> error + int option"
  s3_PutObject :: "trace \<Rightarrow> string \<Rightarrow> string \<Rightarrow> string \<Rightarrow> error option"
  s3_MultipartUpload :: "trace \<Rightarrow> string \<Rightarrow> string \<Rightarrow> string \<Rightarrow> error option"
  body_Reads :: "trace \<Rightarrow> string \<Rightarrow> (nat \<times> time) list"
  time_Now :: "trace \<Rightarrow> time"
  rangeOrder :: rangeOrder

section \<open>Strings\<close>

definition HasPrefix :: "string \<Rightarrow> string \<Rightarrow> bool" where
  "HasPrefix s p = (take (length p) s = p)"

definition HasSuffix :: "string \<Rightarrow> string \<Rightarrow> bool" where
  "HasSuffix s suf = (length suf \<le> length s \<and> drop (length s - length suf) s = suf)"

definition TrimPrefix :: "string \<Rightarrow> string \<Rightarrow> string" where
  "TrimPrefix s p = (if HasPrefix s p then drop (length p) s else s)"


section \<open>The object store adapter: listing\<close>

text \<open>\<^verbatim>\<open>aws.ToString\<close> and \<^verbatim>\<open>aws.ToInt64\<close>: the zero value for a \<^verbatim>\<open>nil\<close> pointer.\<close>

definition ToString :: "string option \<Rightarrow> string" where
  "ToString p = (case p of None \<Rightarrow> [] | Some s \<Rightarrow> s)"

definition ToInt64 :: "int option \<Rightarrow> int" where
  "ToInt64 p = (case p of None \<Rightarrow> 0 | Some n \<Rightarrow> n)"

text \<open>
  The body of the loop of \<^verbatim>\<open>ListFilesPaged\<close> over \<^verbatim>\<open>resp.Contents\<close>.  \<open>None\<close> is the
  panic of \<^verbatim>\<open>obj.LastModified.Format\<close> on a \<^verbatim>\<open>nil\<close> pointer.
\<close>

fun toS3Files :: "env \<Rightarrow> string \<Rightarrow> S3Object list \<Rightarrow> S3File list \<Rightarrow> S3File list option" where
  "toS3Files E pfx [] files = Some files"
| "toS3Files E pfx (obj # rest) files =
     (let name = ToString (obj_Key obj);
          name = (if pfx \<noteq> [] \<and> HasPrefix name pfx then TrimPrefix name pfx else name)
      in case obj_LastModified obj of
           None \<Rightarrow> None
         | Some t \<Rightarrow>
             toS3Files E pfx rest
               (files @ [\<lparr>sf_Path = ToString (obj_Key obj), sf_Name = name,
                          sf_Size = ToInt64 (obj_Size obj),
                          sf_LastModified = time_Format E ''2006-01-02T15:04:05Z07:00'' t\<rparr>]))"

text \<open>
  The functions below return \<open>None\<close> when the Go call does not return to its caller:
  it panics, or its pagination loop does not end within the fuel (the number of pages
  it may ask for).  Otherwise they return the Go results and the trace.
\<close>

definition ListFilesPaged ::
  "env \<Rightarrow> trace \<Rightarrow> string \<Rightarrow> string \<Rightarrow> int option \<Rightarrow> string option
     \<Rightarrow> ((error + S3File list \<times> string option) \<times> trace) option" where
  "ListFilesPaged E h bucket pfx maxKeys continuationToken =
     (case s3_ListObjectsV2 E h bucket pfx maxKeys continuationToken of
        Inl err \<Rightarrow>
          Some (Inl (ErrWrap ''failed to list objects in S3'' err),
                h @ [S3ListObjectsV2 bucket pfx continuationToken])
      | Inr resp \<Rightarrow>
          (case toS3Files E pfx (out_Contents resp) [] of
             None \<Rightarrow> None
           | Some files \<Rightarrow>
               Some (Inr (files, out_NextContinuationToken resp),
                     h @ [S3ListObjectsV2 bucket pfx continuationToken])))"



text \<open>
  \<^verbatim>\<open>WalkPrefix\<close>.  The callback \<open>fn\<close> gets the object, the trace and the state \<open>'c\<close> its
  closure captured, and returns its error, the trace and the state.  \<open>isPlaceholder\<close>
  is the condition under which the loop does not call it.
\<close>

definition isPlaceholder :: "S3Object \<Rightarrow> bool" where
  "isPlaceholder obj = (HasSuffix (ToString (obj_Key obj)) ''/'' \<and> ToInt64 (obj_Size obj) = 0)"

fun WalkPrefix_page ::
  "(S3Object \<Rightarrow> trace \<Rightarrow> 'c \<Rightarrow> error option \<times> trace \<times> 'c) \<Rightarrow> S3Object list \<Rightarrow> trace \<Rightarrow> 'c
     \<Rightarrow> error option \<times> trace \<times> 'c" where
  "WalkPrefix_page fn [] h c = (None, h, c)"
| "WalkPrefix_page fn (obj # rest) h c =
     (if obj_Key obj \<noteq> None \<and> \<not> isPlaceholder obj
      then (case fn obj h c of
              (Some err, h', c') \<Rightarrow> (Some err, h', c')
            | (None, h', c') \<Rightarrow> WalkPrefix_page fn rest h' c')
      else WalkPrefix_page fn rest h c)"

fun WalkPrefix_loop ::
  "nat \<Rightarrow> env \<Rightarrow> (S3Object \<Rightarrow> trace \<Rightarrow> 'c \<Rightarrow> error option \<times> trace \<times> 'c)
     \<Rightarrow> string \<Rightarrow> string \<Rightarrow> int \<Rightarrow> string option \<Rightarrow> trace \<Rightarrow> 'c
     \<Rightarrow> (error option \<times> trace \<times> 'c) option" where
  "WalkPrefix_loop 0 E fn bucket pfx pageSize token h c = None"
| "WalkPrefix_loop (Suc fuel) E fn bucket pfx pageSize token h c =
     (case s3_ListObjectsV2 E h bucket pfx (Some pageSize) token of
        Inl err \<Rightarrow> Some (Some (ErrWrap ''list error'' err), h @ [S3ListObjectsV2 bucket pfx token], c)
      | Inr resp \<Rightarrow>
          (case WalkPrefix_page fn (out_Contents resp) (h @ [S3ListObjectsV2 bucket pfx token]) c of
             (Some err, h', c') \<Rightarrow> Some (Some err, h', c')
           | (None, h', c') \<Rightarrow>
               if out_NextContinuationToken resp = None \<or> out_NextContinuationToken resp = Some []
               then Some (None, h', c')
               else WalkPrefix_loop fuel E fn bucket pfx pageSize (out_NextContinuationToken resp) h' c'))"

definition WalkPrefix ::
  "nat \<Rightarrow> env \<Rightarrow> (S3Object \<Rightarrow> trace \<Rightarrow> 'c \<Rightarrow> error option \<times> trace \<times> 'c)
     \<Rightarrow> string \<Rightarrow> string \<Rightarrow> int \<Rightarrow> trace \<Rightarrow> 'c \<Rightarrow> (error option \<times> trace \<times> 'c) option" where
  "WalkPrefix fuel E fn bucket pfx pageSize h c =
     WalkPrefix_loop fuel E fn bucket pfx pageSize None h c"

text \<open>A callback that records the objects it is given, and never fails.\<close>

definition recordObject :: "S3Object \<Rightarrow> trace \<Rightarrow> S3Object list \<Rightarrow> error option \<times> trace \<times> S3Object list" where
  "recordObject obj h seen = (None, h, seen @ [obj])"

text \<open>
  A set of collaborators in which every call succeeds and returns nothing; the
  examples below change the fields they are about.
\<close>

definition idleEnv :: env where
  "idleEnv =
     \<lparr>BuildURL = (\<lambda>project resource ident params. ''/'' @ resource @ ''/'' @ ident),
      http_Do = (\<lambda>h method url body. Inr []),
      http_Get = (\<lambda>h url. None),
      json_Unmarshal = (\<lambda>body. Inr []),
      json_Marshal = (\<lambda>v. Inr []),
      uuid_New = (\<lambda>h. ''0123456789abcdef0123456789abcdef''),
      ParsePath = (\<lambda>p. Inl (ErrNew ''invalid path'')),
      time_Format = (\<lambda>layout t. []),
      os_Stat = (\<lambda>h p. Inl (ErrNew ''no such file or directory'')),
      os_IsNotExist = (\<lambda>err. True),
      os_MkdirAll = (\<lambda>h p. None),
      os_Open = (\<lambda>h p. Inr ''application/octet-stream''),
      os_Create = (\<lambda>h p. None),
      file_Stat = (\<lambda>h p. Inl (ErrNew ''no such file or directory'')),
      file_Seek = (\<lambda>h p. None),
      io_Copy = (\<lambda>h p. None),
      filepath_Walk = (\<lambda>h p. []),
      filepath_Rel = (\<lambda>base p. Inr p),
      filepath_Join = (\<lambda>parts. concat parts),
      filepath_Dir = (\<lambda>p. ''.''),
      filepath_Base = (\<lambda>p. p),
      filepath_Clean = (\<lambda>p. p),
      filepath_ToSlash = (\<lambda>p. p),
      s3_ListObjectsV2 = (\<lambda>h bucket pfx maxKeys token.
                            Inr \<lparr>out_Contents = [], out_NextContinuationToken = None\<rparr>),
      s3_GetObject = (\<lambda>h bucket key. Inr None),
      s3_PutObject = (\<lambda>h bucket key file. None),
      s3_MultipartUpload = (\<lambda>h bucket key file. None),
      body_Reads = (\<lambda>h body. []),
      time_Now = (\<lambda>h. 0),
      rangeOrder = (\<lambda>ix. ix)\<rparr>"

text \<open>
  A bucket whose listing under \<^verbatim>\<open>data/\<close> is one page: the zero-byte placeholder
  \<^verbatim>\<open>data/\<close> and the object \<^verbatim>\<open>data/a.txt\<close> of three bytes.
\<close>

definition placeholderObject :: S3Object where
  "placeholderObject = \<lparr>obj_Key = Some ''data/'', obj_Size = Some 0, obj_LastModified = Some 1\<rparr>"

definition payloadObject :: S3Object where
  "payloadObject = \<lparr>obj_Key = Some ''data/a.txt'', obj_Size = Some 3, obj_LastModified = Some 2\<rparr>"

definition listingEnv :: env where
  "listingEnv =
     idleEnv\<lparr>s3_ListObjectsV2 := (\<lambda>h bucket pfx maxKeys token.
        Inr \<lparr>out_Contents = [placeholderObject, payloadObject],
             out_NextContinuationToken = None\<rparr>)\<rparr>"

section \<open>The object store adapter: put\<close>

definition threshold :: int where
  "threshold = 100 * 1024 * 1024"

text \<open>
  \<^verbatim>\<open>UploadFileWithProgress\<close> on an open file, named by its path, with a hook and the
  state of the hook's closures: the error it returns with the trace, and the state of
  the closures afterwards.  The value it returns beside the error (the SDK's output) is
  left out: the upload discards it.  The body handed to the SDK is the tee reader, so
  every read the SDK makes of it is a \<^verbatim>\<open>Write\<close> of the progress writer; \<^verbatim>\<open>OnDone\<close> is
  called whether the put failed or not.
\<close>

definition UploadFileWithProgress ::
  "env \<Rightarrow> trace \<Rightarrow> string \<Rightarrow> string \<Rightarrow> string \<Rightarrow> 's ProgressHook option \<Rightarrow> 's
     \<Rightarrow> (error option \<times> trace) \<times> 's" where
  "UploadFileWithProgress E h bucket key file hook s =
     (case file_Stat E h file of
        Inl err \<Rightarrow> ((Some (ErrWrap ''stat error'' err), h @ [FileStat file]), s)
      | Inr info \<Rightarrow>
          (let h1 = h @ [FileStat file] in
           case file_Seek E h1 file of
             Some err \<Rightarrow> ((Some (ErrWrap ''seek error'' err), h1 @ [FileSeek file]), s)
           | None \<Rightarrow>
               (let h2 = h1 @ [FileSeek file] in
                case file_Seek E h2 file of
                  Some err \<Rightarrow> ((Some (ErrWrap ''rewind error'' err), h2 @ [FileSeek file]), s)
                | None \<Rightarrow>
                    (let h3 = h2 @ [FileSeek file];
                         s1 = callOnStart hook key (fi_Size info) s;
                         pw = newProgressWriter key (fi_Size info) (hookOnProgress hook);
                         start = time_Now E h3;
                         s2 = snd (teeWrites (body_Reads E h3 file) pw s1)
                     in if fi_Size info > threshold
                        then (let h4 = h3 @ [S3MultipartUpload bucket key file] in
                              ((s3_MultipartUpload E h3 bucket key file, h4),
                               callOnDone hook key (fi_Size info) (time_Sub (time_Now E h4) start) s2))
                        else (let h4 = h3 @ [S3PutObject bucket key file] in
                              ((s3_PutObject E h3 bucket key file, h4),
                               callOnDone hook key (fi_Size info) (time_Sub (time_Now E h4) start) s2))))))"

section \<open>Uploading a file and a directory\<close>

text \<open>
  \<^verbatim>\<open>utils.UploadS3File\<close> and \<^verbatim>\<open>utils.UploadS3Dir\<close>: the file descriptors or the error, and
  the trace.  Their first result (a summary of the SDK's output) is left out, as the
  upload discards it; what they print is not modelled.  A \<^verbatim>\<open>nil\<close> slice of descriptors
  is the empty list.
\<close>

definition fileDescriptor :: "string \<Rightarrow> string \<Rightarrow> string \<Rightarrow> string \<Rightarrow> int \<Rightarrow> doc" where
  "fileDescriptor path name contentType lastModified fileSize =
     [(''path'', VStr path), (''name'', VStr name), (''content_type'', VStr contentType),
      (''last_modified'', VStr lastModified), (''size'', VInt64 fileSize)]"

definition RFC1123 :: string where
  "RFC1123 = ''Mon, 02 Jan 2006 15:04:05 MST''"

definition TimeFormat :: string where
  "TimeFormat = ''Mon, 02 Jan 2006 15:04:05 GMT''"

definition UploadS3File ::
  "env \<Rightarrow> trace \<Rightarrow> string \<Rightarrow> string \<Rightarrow> string \<Rightarrow> bool \<Rightarrow> (error + doc list) \<times> trace" where
  "UploadS3File E h bucket key localPath verbose =
     (case os_Open E h localPath of
        Inl err \<Rightarrow> (Inl (ErrWrap ''failed to open local file'' err), h @ [OsOpen localPath])
      | Inr contentType \<Rightarrow>
          (let h1 = h @ [OsOpen localPath] in
           case file_Seek E h1 localPath of
             Some err \<Rightarrow> (Inl (ErrWrap ''seek error'' err), h1 @ [FileSeek localPath])
           | None \<Rightarrow>
               (let h2 = h1 @ [FileSeek localPath];
                    h3 = (if verbose then h2 else h2 @ [FileStat localPath])
                in case file_Seek E h3 localPath of
                     Some err \<Rightarrow> (Inl (ErrWrap ''seek error'' err), h3 @ [FileSeek localPath])
                   | None \<Rightarrow>
                       (case fst (UploadFileWithProgress E (h3 @ [FileSeek localPath]) bucket key localPath
                                    (Some (terminalHook True)) ()) of
                          (Some err, h4) \<Rightarrow> (Inl (ErrWrap ''upload error'' err), h4)
                        | (None, h4) \<Rightarrow>
                            (case os_Stat E h4 localPath of
                               Inl err \<Rightarrow> (Inr [], h4 @ [OsStat localPath])
                             | Inr info \<Rightarrow>
                                 (Inr [fileDescriptor [] (fi_Name info) contentType
                                         (time_Format E RFC1123 (fi_ModTime info)) (fi_Size info)],
                                  h4 @ [OsStat localPath]))))))"

text \<open>The walk function of \<^verbatim>\<open>UploadS3Dir\<close>, over the visits of \<^verbatim>\<open>filepath.Walk\<close>.\<close>

fun walkCollect :: "(string \<times> FileInfo \<times> error option) list \<Rightarrow> string list \<Rightarrow> error + string list" where
  "walkCollect [] localFiles = Inr localFiles"
| "walkCollect ((path, info, walkErr) # rest) localFiles =
     (case walkErr of
        Some err \<Rightarrow> Inl (ErrWrap ''walk error'' err)
      | None \<Rightarrow>
          if fi_IsDir info then walkCollect rest localFiles
          else walkCollect rest (localFiles @ [path]))"

text \<open>
  The body of the loop of \<^verbatim>\<open>UploadS3Dir\<close> over the local files: the descriptor of the
  file, or the error that ends the loop.
\<close>

definition UploadS3Dir_file ::
  "env \<Rightarrow> trace \<Rightarrow> string \<Rightarrow> string \<Rightarrow> string \<Rightarrow> bool \<Rightarrow> string \<Rightarrow> (error + doc) \<times> trace" where
  "UploadS3Dir_file E h bucket pfx localPath verbose path =
     (case os_Stat E h path of
        Inl err \<Rightarrow> (Inl (ErrWrap (''stat error on '' @ path) err), h @ [OsStat path])
      | Inr info \<Rightarrow>
          (let h1 = h @ [OsStat path] in
           case filepath_Rel E localPath path of
             Inl err \<Rightarrow> (Inl (ErrWrap ''relative path error'' err), h1)
           | Inr relPath \<Rightarrow>
               (let s3Key = filepath_ToSlash E (filepath_Join E [pfx, relPath]) in
                case os_Open E h1 path of
                  Inl err \<Rightarrow> (Inl (ErrWrap ''open file error'' err), h1 @ [OsOpen path])
                | Inr contentType \<Rightarrow>
                    (let h2 = h1 @ [OsOpen path] in
                     case file_Seek E h2 path of
                       Some err \<Rightarrow> (Inl (ErrWrap ''seek error'' err), h2 @ [FileSeek path])
                     | None \<Rightarrow>
                         (let h3 = h2 @ [FileSeek path] in
                          case file_Seek E h3 path of
                            Some err \<Rightarrow> (Inl (ErrWrap ''seek error'' err), h3 @ [FileSeek path])
                          | None \<Rightarrow>
                              (case fst (UploadFileWithProgress E (h3 @ [FileSeek path]) bucket s3Key path
                                           (Some (terminalHook verbose)) ()) of
                                 (Some err, h4) \<Rightarrow>
                                   (Inl (ErrWrap (''upload error ('' @ path @ '')'') err), h4)
                               | (None, h4) \<Rightarrow>
                                   (let dirPath = filepath_Dir E relPath;
                                        normalizedPath =
                                          (if dirPath \<noteq> ''.''
                                           then filepath_ToSlash E (dirPath @ ''/'' @ fi_Name info)
                                           else fi_Name info)
                                    in (Inr (fileDescriptor normalizedPath (fi_Name info) contentType
                                               (time_Format E TimeFormat (fi_ModTime info))
                                               (fi_Size info)),
                                        h4))))))))"

text \<open>The loop: it ends at the first file that fails, and returns its error alone.\<close>

fun UploadS3Dir_files ::
  "env \<Rightarrow> trace \<Rightarrow> string \<Rightarrow> string \<Rightarrow> string \<Rightarrow> bool \<Rightarrow> string list \<Rightarrow> doc list
     \<Rightarrow> (error + doc list) \<times> trace" where
  "UploadS3Dir_files E h bucket pfx localPath verbose [] fileInfos = (Inr fileInfos, h)"
| "UploadS3Dir_files E h bucket pfx localPath verbose (path # rest) fileInfos =
     (case UploadS3Dir_file E h bucket pfx localPath verbose path of
        (Inl err, h') \<Rightarrow> (Inl err, h')
      | (Inr info, h') \<Rightarrow>
          UploadS3Dir_files E h' bucket pfx localPath verbose rest (fileInfos @ [info]))"

definition UploadS3Dir ::
  "env \<Rightarrow> trace \<Rightarrow> ParsedPath \<Rightarrow> string \<Rightarrow> bool \<Rightarrow> (error + doc list) \<times> trace" where
  "UploadS3Dir E h parsedPath localPath verbose =
     (case walkCollect (filepath_Walk E h localPath) [] of
        Inl err \<Rightarrow>
          (Inl (ErrWrap ''failed to enumerate local directory'' err), h @ [FilepathWalk localPath])
      | Inr localFiles \<Rightarrow>
          UploadS3Dir_files E (h @ [FilepathWalk localPath]) (pp_Host parsedPath) (pp_Path parsedPath)
            localPath verbose localFiles [])"

section \<open>The transfer orchestrator: upload\<close>

record UploadRequest =
  ur_Project :: string
  ur_Resource :: string
  ur_ID :: string
  ur_Name :: string
  ur_Input :: string
  ur_Verbose :: bool
  ur_Bucket :: string

record UploadResult =
  res_ArtifactID :: string
  res_Files :: "doc list"

text \<open>
  The process-wide configuration store of the \<^verbatim>\<open>viper\<close> library, as \<^verbatim>\<open>viper.GetString\<close>
  reads it: the empty string for a key that is not set.
\<close>

type_synonym viper = "string \<Rightarrow> string"

definition RunId :: string where
  "RunId = ''run_id''"

text \<open>
  The package variable \<^verbatim>\<open>Resources\<close>, which no code of the repository assigns, and
  \<^verbatim>\<open>utils.TranslateEndpoint\<close>; \<open>None\<close> is its \<^verbatim>\<open>os.Exit(1)\<close>.  No name is listed twice,
  so the order in which Go ranges over the table does not matter.
\<close>

definition Resources :: "(string \<times> string list) list" where
  "Resources =
     [(''artifacts'', [''artifact'']), (''dataitems'', [''dataitem'']),
      (''functions'', [''function'', ''fn'']), (''models'', [''model'']),
      (''projects'', [''project'']), (''runs'', [''run'']),
      (''workflows'', [''workflow'']), (''logs'', [''log''])]"

definition TranslateEndpoint :: "string \<Rightarrow> string option" where
  "TranslateEndpoint resource =
     (case filter (\<lambda>(key, names). key = resource \<or> resource \<in> set names) Resources of
        [] \<Rightarrow> None
      | (key, names) # rest \<Rightarrow> Some key)"

text \<open>
  The closure \<^verbatim>\<open>getRunKey\<close> of \<^verbatim>\<open>Upload\<close>: the run key (empty when no run is known) or
  the error, and the trace.
\<close>

definition getRunKey ::
  "env \<Rightarrow> viper \<Rightarrow> trace \<Rightarrow> UploadRequest \<Rightarrow> ((error + string) \<times> trace) option" where
  "getRunKey E V h req =
     (let runID = V RunId in
      if runID = [] then Some (Inr [], h)
      else
        (case TranslateEndpoint ''run'' of
           None \<Rightarrow> None
         | Some runs \<Rightarrow>
             (let url = BuildURL E (ur_Project req) runs runID [] in
              case http_Do E h ''GET'' url None of
                Inl err \<Rightarrow> Some (Inl err, h @ [HttpDo ''GET'' url None])
              | Inr bodyRun \<Rightarrow>
                  (case json_Unmarshal E bodyRun of
                     Inl err \<Rightarrow> Some (Inl err, h @ [HttpDo ''GET'' url None])
                   | Inr run \<Rightarrow>
                       (case map_of run ''key'' of
                          Some (VStr v) \<Rightarrow>
                            if v \<noteq> [] then Some (Inr v, h @ [HttpDo ''GET'' url None])
                            else Some (Inl (ErrNew ''run key not found in response''),
                                       h @ [HttpDo ''GET'' url None])
                        | _ \<Rightarrow> Some (Inl (ErrNew ''run key not found in response''),
                                     h @ [HttpDo ''GET'' url None]))))))"

text \<open>
  The closure \<^verbatim>\<open>addRelationship\<close>.  The type assertion to \<^verbatim>\<open>[]map[string]interface{}\<close>
  succeeds only on a value of that dynamic type (\<open>VMaps\<close>).
\<close>

definition addRelationship :: "doc \<Rightarrow> string \<Rightarrow> string \<Rightarrow> doc" where
  "addRelationship artifactMap relType dest =
     (let meta = (case map_of artifactMap ''metadata'' of Some (VMap m) \<Rightarrow> m | _ \<Rightarrow> []);
          rels = (case map_of meta ''relationships'' of Some (VMaps rs) \<Rightarrow> rs | _ \<Rightarrow> []);
          rels = rels @ [[(''type'', VStr relType), (''dest'', VStr dest)]]
      in AList.update ''metadata'' (VMap (AList.update ''relationships'' (VMaps rels) meta)) artifactMap)"

text \<open>
  The closure \<^verbatim>\<open>updateStatus\<close>, which writes the artifact it captured: the error, the
  artifact after the call and the trace.  \<^verbatim>\<open>utils.MergeConfig{}\<close> is the empty
  configuration.  \<open>None\<close> is a panic of the merge.
\<close>

definition updateStatus ::
  "env \<Rightarrow> trace \<Rightarrow> UploadRequest \<Rightarrow> string \<Rightarrow> string \<Rightarrow> doc \<Rightarrow> string \<Rightarrow> doc
     \<Rightarrow> (error option \<times> doc \<times> trace) option" where
  "updateStatus E h req endpoint artifactID artifact key updateData =
     (let existing = (case map_of artifact key of Some (VMap m) \<Rightarrow> m | _ \<Rightarrow> []) in
      case MergeMaps (rangeOrder E) existing updateData (Some Map.empty) of
        None \<Rightarrow> None
      | Some merged \<Rightarrow>
          (let artifact' = AList.update key (VMap merged) artifact in
           case json_Marshal E (VMap artifact') of
             Inl err \<Rightarrow> Some (Some (ErrWrap ''failed to marshal updated artifact'' err), artifact', h)
           | Inr payload \<Rightarrow>
               (let putURL = BuildURL E (ur_Project req) endpoint artifactID [] in
                case http_Do E h ''PUT'' putURL (Some payload) of
                  Inl err \<Rightarrow>
                    Some (Some (ErrWrapData ''failed to update artifact status with data'' updateData err),
                          artifact', h @ [HttpDo ''PUT'' putURL (Some payload)])
                | Inr body \<Rightarrow> Some (None, artifact', h @ [HttpDo ''PUT'' putURL (Some payload)]))))"

text \<open>
  \<^verbatim>\<open>Upload\<close> up to the artifact it works on: the two checks of the request, the run key,
  the creation of the artifact when no identifier is given (step 1) and its retrieval
  (step 2).  The result is the error that \<^verbatim>\<open>Upload\<close> returns, or the run key, the
  identifier and the artifact.
\<close>

definition Upload_fetch ::
  "env \<Rightarrow> viper \<Rightarrow> trace \<Rightarrow> string \<Rightarrow> UploadRequest
     \<Rightarrow> ((error + string \<times> string \<times> doc) \<times> trace) option" where
  "Upload_fetch E V h endpoint req =
     (if ur_Input req = [] then Some (Inl (ErrNew ''missing required input file or directory''), h)
      else if endpoint \<noteq> ''projects'' \<and> ur_Project req = []
      then Some (Inl (ErrNew ''project is mandatory for non-project resources''), h)
      else
        (case getRunKey E V h req of
           None \<Rightarrow> None
         | Some (Inl err, h0) \<Rightarrow> Some (Inl (ErrWrap ''failed to retrieve run'' err), h0)
         | Some (Inr runKey, h0) \<Rightarrow>
             (let created =
                (if ur_ID req = [] then
                   (if ur_Name req = []
                    then (Inl (ErrNew ''name is required when creating a new artifact''), h0)
                    else
                      (let bucket = (if ur_Bucket req = [] then ''datalake'' else ur_Bucket req) in
                       case os_Stat E h0 (ur_Input req) of
                         Inl err \<Rightarrow> (Inl (ErrWrap ''cannot access input'' err), h0 @ [OsStat (ur_Input req)])
                       | Inr st \<Rightarrow>
                           (let h1 = h0 @ [OsStat (ur_Input req)];
                                artifactID = uuid_New E h1;
                                h2 = h1 @ [NewUUID];
                                path =
                                  (if fi_IsDir st
                                   then ''s3://'' @ bucket @ ''/'' @ ur_Project req @ ''/'' @ ur_Resource req
                                          @ ''/'' @ artifactID @ ''/''
                                   else ''s3://'' @ bucket @ ''/'' @ ur_Project req @ ''/'' @ ur_Resource req
                                          @ ''/'' @ artifactID @ ''/'' @ fi_Name st);
                                entity =
                                  [(''id'', VStr artifactID), (''project'', VStr (ur_Project req)),
                                   (''kind'', VStr (ur_Resource req)), (''name'', VStr (ur_Name req)),
                                   (''spec'', VMap [(''path'', VStr path)]),
                                   (''status'', VMap [(''state'', VStr ''CREATED'')])]
                            in case json_Marshal E (VMap entity) of
                                 Inl err \<Rightarrow>
                                   (Inl (ErrWrap ''failed to marshal artifact creation payload'' err), h2)
                               | Inr payload \<Rightarrow>
                                   (let createURL = BuildURL E (ur_Project req) endpoint [] [] in
                                    case http_Do E h2 ''POST'' createURL (Some payload) of
                                      Inl err \<Rightarrow>
                                        (Inl (ErrWrap ''failed to create artifact'' err),
                                         h2 @ [HttpDo ''POST'' createURL (Some payload)])
                                    | Inr body \<Rightarrow>
                                        (Inr artifactID, h2 @ [HttpDo ''POST'' createURL (Some payload)])))))
                 else (Inr (ur_ID req), h0))
              in case created of
                   (Inl err, h3) \<Rightarrow> Some (Inl err, h3)
                 | (Inr artifactID, h3) \<Rightarrow>
                     (let getURL = BuildURL E (ur_Project req) endpoint artifactID [] in
                      case http_Do E h3 ''GET'' getURL None of
                        Inl err \<Rightarrow>
                          Some (Inl (ErrWrap ''failed to retrieve artifact info'' err),
                                h3 @ [HttpDo ''GET'' getURL None])
                      | Inr body \<Rightarrow>
                          (case json_Unmarshal E body of
                             Inl err \<Rightarrow>
                               Some (Inl (ErrWrap ''failed to parse response'' err),
                                     h3 @ [HttpDo ''GET'' getURL None])
                           | Inr artifact \<Rightarrow>
                               Some (Inr (runKey, artifactID, artifact),
                                     h3 @ [HttpDo ''GET'' getURL None]))))))"

text \<open>\<^verbatim>\<open>state, _ := status["state"].(string)\<close>: the empty string when the assertion fails.\<close>

definition stateOf :: "doc \<Rightarrow> string" where
  "stateOf status = (case map_of status ''state'' of Some (VStr s) \<Rightarrow> s | _ \<Rightarrow> [])"

text \<open>
  Steps 3 and 4 of \<^verbatim>\<open>Upload\<close>: the state must be \<^verbatim>\<open>CREATED\<close> and the path an \<^verbatim>\<open>s3\<close> one.
\<close>

definition Upload_check :: "env \<Rightarrow> doc \<Rightarrow> error + ParsedPath" where
  "Upload_check E artifact =
     (case map_of artifact ''status'' of
        Some (VMap status) \<Rightarrow>
          if stateOf status \<noteq> ''CREATED''
          then Inl (ErrNew (''artifact is not in CREATED state, current state: '' @ stateOf status))
          else
            (case map_of artifact ''spec'' of
               Some (VMap spec) \<Rightarrow>
                 (let pathStr = (case map_of spec ''path'' of Some (VStr s) \<Rightarrow> s | _ \<Rightarrow> []) in
                  case ParsePath E pathStr of
                    Inl err \<Rightarrow> Inl (ErrWrap ''invalid path in artifact'' err)
                  | Inr parsedPath \<Rightarrow>
                      if pp_Scheme parsedPath \<noteq> ''s3''
                      then Inl (ErrNew ''only s3 scheme is supported for upload'')
                      else Inr parsedPath)
             | _ \<Rightarrow> Inl (ErrNew ''missing or invalid spec field''))
      | _ \<Rightarrow> Inl (ErrNew ''missing or invalid status field''))"

text \<open>
  Step 7 of \<^verbatim>\<open>Upload\<close>: the stat of the input and the transfer of the file or of the
  directory.  The result is the descriptors, or the error that \<^verbatim>\<open>Upload\<close> returns after
  its attempt to set the state to \<^verbatim>\<open>ERROR\<close>, which is the same three lines at each of the
  three places.
\<close>

definition Upload_transfer ::
  "env \<Rightarrow> trace \<Rightarrow> UploadRequest \<Rightarrow> ParsedPath \<Rightarrow> (error + doc list) \<times> trace" where
  "Upload_transfer E h req parsedPath =
     (case os_Stat E h (ur_Input req) of
        Inl err \<Rightarrow> (Inl (ErrWrap ''cannot access input'' err), h @ [OsStat (ur_Input req)])
      | Inr st \<Rightarrow>
          (let h1 = h @ [OsStat (ur_Input req)] in
           if fi_IsDir st then
             (case UploadS3Dir E h1 parsedPath (ur_Input req) (ur_Verbose req) of
                (Inl err, h2) \<Rightarrow> (Inl (ErrWrap ''upload failed'' err), h2)
              | (Inr files, h2) \<Rightarrow> (Inr files, h2))
           else
             (let targetKey =
                (if HasSuffix (pp_Path parsedPath) ''/''
                 then filepath_ToSlash E (filepath_Join E [pp_Path parsedPath, fi_Name st])
                 else pp_Path parsedPath)
              in case UploadS3File E h1 (pp_Host parsedPath) targetKey (ur_Input req) (ur_Verbose req) of
                   (Inl err, h2) \<Rightarrow> (Inl (ErrWrap ''upload failed'' err), h2)
                 | (Inr files, h2) \<Rightarrow> (Inr files, h2))))"

text \<open>
  \<^verbatim>\<open>Upload\<close>: the pair it returns (the result, \<open>None\<close> for \<^verbatim>\<open>nil\<close>, and the error) and
  the trace; \<open>None\<close> when the call does not return.
\<close>

definition Upload ::
  "env \<Rightarrow> viper \<Rightarrow> trace \<Rightarrow> string \<Rightarrow> UploadRequest
     \<Rightarrow> ((UploadResult option \<times> error option) \<times> trace) option" where
  "Upload E V h endpoint req =
     (case Upload_fetch E V h endpoint req of
        None \<Rightarrow> None
      | Some (Inl err, h1) \<Rightarrow> Some ((None, Some err), h1)
      | Some (Inr (runKey, artifactID, artifact), h1) \<Rightarrow>
          (case Upload_check E artifact of
             Inl err \<Rightarrow> Some ((None, Some err), h1)
           | Inr parsedPath \<Rightarrow>
               (let artifact1 =
                  (if runKey \<noteq> [] then addRelationship artifact ''produced_by'' runKey else artifact)
                in case updateStatus E h1 req endpoint artifactID artifact1 ''status''
                          [(''state'', VStr ''UPLOADING'')] of
                     None \<Rightarrow> None
                   | Some (Some err, artifact2, h2) \<Rightarrow> Some ((None, Some err), h2)
                   | Some (None, artifact2, h2) \<Rightarrow>
                       (case Upload_transfer E h2 req parsedPath of
                          (Inl err, h3) \<Rightarrow>
                            (case updateStatus E h3 req endpoint artifactID artifact2 ''status''
                                    [(''state'', VStr ''ERROR'')] of
                               None \<Rightarrow> None
                             | Some (ignored, artifact3, h4) \<Rightarrow> Some ((None, Some err), h4))
                        | (Inr files, h3) \<Rightarrow>
                            (case updateStatus E h3 req endpoint artifactID artifact2 ''status''
                                    [(''state'', VStr ''READY''), (''files'', VMaps files)] of
                               None \<Rightarrow> None
                             | Some (Some err, artifact3, h4) \<Rightarrow>
                                 Some ((Some \<lparr>res_ArtifactID = artifactID, res_Files = files\<rparr>,
                                        Some (ErrWrap ''upload succeeded but failed to update status'' err)),
                                       h4)
                             | Some (None, artifact3, h4) \<Rightarrow>
                                 Some ((Some \<lparr>res_ArtifactID = artifactID, res_Files = files\<rparr>, None),
                                       h4))))))"

text \<open>
  An event that changes the Core API's data or the object store: a request of the Core
  client other than a \<^verbatim>\<open>GET\<close>, or a put.
\<close>

fun remoteMutation :: "event \<Rightarrow> bool" where
  "remoteMutation (HttpDo method url body) = (method \<noteq> ''GET'')"
| "remoteMutation (S3PutObject bucket key file) = True"
| "remoteMutation (S3MultipartUpload bucket key file) = True"
| "remoteMutation e = False"

text \<open>
  Requests, collaborators and global stores for the examples: a request for the existing
  artifact \<^verbatim>\<open>a1\<close> and one with neither identifier nor name; a Core API that answers
  every \<^verbatim>\<open>GET\<close> with an artifact in state \<^verbatim>\<open>CREATED\<close> (\<^verbatim>\<open>READY\<close> for \<open>readyEnv\<close>) and
  whose encoder writes an artifact as the state it holds; a Core API that refuses the
  updates to \<^verbatim>\<open>READY\<close> and \<^verbatim>\<open>ERROR\<close>; an object store that refuses the put.
\<close>

definition existingRequest :: UploadRequest where
  "existingRequest =
     \<lparr>ur_Project = ''p'', ur_Resource = ''artifacts'', ur_ID = ''a1'', ur_Name = [],
      ur_Input = ''data.bin'', ur_Verbose = False, ur_Bucket = []\<rparr>"

definition namelessRequest :: UploadRequest where
  "namelessRequest = existingRequest\<lparr>ur_ID := []\<rparr>"

definition createdArtifact :: doc where
  "createdArtifact =
     [(''id'', VStr ''a1''),
      (''spec'', VMap [(''path'', VStr ''s3://bkt/p/artifacts/a1/data.bin'')]),
      (''status'', VMap [(''state'', VStr ''CREATED'')])]"

definition statePayload :: "val \<Rightarrow> string" where
  "statePayload v =
     (case v of
        VMap a \<Rightarrow> (case map_of a ''status'' of Some (VMap st) \<Rightarrow> stateOf st | _ \<Rightarrow> [])
      | _ \<Rightarrow> [])"

definition uploadEnv :: env where
  "uploadEnv =
     idleEnv\<lparr>json_Unmarshal := (\<lambda>body. Inr createdArtifact),
             json_Marshal := (\<lambda>v. Inr (statePayload v)),
             ParsePath := (\<lambda>p. Inr \<lparr>pp_Scheme = ''s3'', pp_Host = ''bkt'',
                                      pp_Path = ''p/artifacts/a1/data.bin'', pp_Filename = ''data.bin''\<rparr>),
             os_Stat := (\<lambda>h p. Inr \<lparr>fi_Name = ''data.bin'', fi_IsDir = False, fi_Size = 3, fi_ModTime = 5\<rparr>),
             file_Stat := (\<lambda>h p. Inr \<lparr>fi_Name = ''data.bin'', fi_IsDir = False, fi_Size = 3, fi_ModTime = 5\<rparr>)\<rparr>"

definition noGlobals :: viper where
  "noGlobals = (\<lambda>key. [])"

definition readyEnv :: env where
  "readyEnv = uploadEnv\<lparr>json_Unmarshal := (\<lambda>body. Inr [(''status'', VMap [(''state'', VStr ''READY'')])])\<rparr>"

definition statusFailsEnv :: env where
  "statusFailsEnv =
     uploadEnv\<lparr>http_Do := (\<lambda>h method url body.
        if body = Some ''READY'' \<or> body = Some ''ERROR'' then Inl (ErrNew ''503 Service Unavailable'')
        else Inr [])\<rparr>"

definition putFailsEnv :: env where
  "putFailsEnv = statusFailsEnv\<lparr>s3_PutObject := (\<lambda>h bucket key file. Some (ErrNew ''put refused''))\<rparr>"

definition dataDescriptor :: doc where
  "dataDescriptor = fileDescriptor [] ''data.bin'' ''application/octet-stream'' [] 3"

definition transferTrace :: trace where
  "transferTrace =
     [HttpDo ''GET'' ''/artifacts/a1'' None,
      HttpDo ''PUT'' ''/artifacts/a1'' (Some ''UPLOADING''),
      OsStat ''data.bin'', OsOpen ''data.bin'', FileSeek ''data.bin'', FileStat ''data.bin'',
      FileSeek ''data.bin'', FileStat ''data.bin'', FileSeek ''data.bin'', FileSeek ''data.bin'']"

text \<open>
  A put and a get of ten bytes whose body is read in three chunks of 4, 3 and 3 bytes,
  one millisecond apart (clock readings of the year 2025).
\<close>

definition progressEnv :: env where
  "progressEnv =
     idleEnv\<lparr>file_Stat := (\<lambda>h p. Inr \<lparr>fi_Name = ''data.bin'', fi_IsDir = False, fi_Size = 10, fi_ModTime = 5\<rparr>),
             s3_GetObject := (\<lambda>h bucket key. Inr (Some 10)),
             body_Reads := (\<lambda>h body. [(4, 63900000000000000000), (3, 63900000000001000000),
                                         (3, 63900000000002000000)])\<rparr>"

text \<open>
  What the transfer puts into the object store.  \<open>putOutcome\<close> is the answer of the
  object store to an event that is a put, at the history before it (\<open>None\<close> also for
  an event that is no put); \<open>putsAccepted E h t\<close> says that the object store accepted
  every put among the events \<open>t\<close> that follow the history \<open>h\<close>; \<open>putFiles\<close> lists the
  local files of the puts of a trace, in order.
\<close>

fun putOutcome :: "env \<Rightarrow> trace \<Rightarrow> event \<Rightarrow> error option" where
  "putOutcome E h (S3PutObject bucket key file) = s3_PutObject E h bucket key file"
| "putOutcome E h (S3MultipartUpload bucket key file) = s3_MultipartUpload E h bucket key file"
| "putOutcome E h e = None"

fun putsAccepted :: "env \<Rightarrow> trace \<Rightarrow> trace \<Rightarrow> bool" where
  "putsAccepted E h [] = True"
| "putsAccepted E h (e # t) = (putOutcome E h e = None \<and> putsAccepted E (h @ [e]) t)"

fun putFiles :: "trace \<Rightarrow> string list" where
  "putFiles [] = []"
| "putFiles (S3PutObject bucket key file # t) = file # putFiles t"
| "putFiles (S3MultipartUpload bucket key file # t) = file # putFiles t"
| "putFiles (e # t) = putFiles t"

text \<open>
  The upload of a directory \<^verbatim>\<open>out\<close> with the two files \<^verbatim>\<open>a.txt\<close> and \<^verbatim>\<open>b.txt\<close> to
  an artifact whose status has, beside the state, a \<^verbatim>\<open>message\<close>.  The encoder writes
  the fields of the status; the object store refuses the put of the second file, and
  the Core API refuses the update to \<^verbatim>\<open>ERROR\<close>.
\<close>

definition directoryRequest :: UploadRequest where
  "directoryRequest = existingRequest\<lparr>ur_Input := ''out''\<rparr>"

definition annotatedArtifact :: doc where
  "annotatedArtifact =
     [(''id'', VStr ''a1''),
      (''spec'', VMap [(''path'', VStr ''s3://bkt/p/artifacts/a1/'')]),
      (''status'', VMap [(''state'', VStr ''CREATED''), (''message'', VStr ''new'')])]"

definition statusPayload :: "val \<Rightarrow> string" where
  "statusPayload v =
     (case v of
        VMap a \<Rightarrow>
          (case map_of a ''status'' of
             Some (VMap st) \<Rightarrow>
               concat (map (\<lambda>(k, x). k @ ''='' @ (case x of VStr s \<Rightarrow> s | _ \<Rightarrow> ''?'') @ '';'') st)
           | _ \<Rightarrow> [])
      | _ \<Rightarrow> [])"

definition directoryEnv :: env where
  "directoryEnv =
     idleEnv\<lparr>json_Unmarshal := (\<lambda>body. Inr annotatedArtifact),
             json_Marshal := (\<lambda>v. Inr (statusPayload v)),
             http_Do := (\<lambda>h method url body.
               if body = Some ''state=ERROR;message=new;'' then Inl (ErrNew ''503 Service Unavailable'')
               else Inr []),
             ParsePath := (\<lambda>p. Inr \<lparr>pp_Scheme = ''s3'', pp_Host = ''bkt'',
                                      pp_Path = ''p/artifacts/a1/'', pp_Filename = []\<rparr>),
             os_Stat := (\<lambda>h p. Inr \<lparr>fi_Name = drop 4 p, fi_IsDir = (p = ''out''), fi_Size = 3,
                                    fi_ModTime = 5\<rparr>),
             file_Stat := (\<lambda>h p. Inr \<lparr>fi_Name = drop 4 p, fi_IsDir = False, fi_Size = 3, fi_ModTime = 5\<rparr>),
             filepath_Walk := (\<lambda>h p.
               [(''out'', \<lparr>fi_Name = ''out'', fi_IsDir = True, fi_Size = 0, fi_ModTime = 5\<rparr>, None),
                (''out/a.txt'', \<lparr>fi_Name = ''a.txt'', fi_IsDir = False, fi_Size = 3, fi_ModTime = 5\<rparr>, None),
                (''out/b.txt'', \<lparr>fi_Name = ''b.txt'', fi_IsDir = False, fi_Size = 3, fi_ModTime = 5\<rparr>, None)]),
             filepath_Rel := (\<lambda>base p. Inr (drop (length base + 1) p)),
             s3_PutObject := (\<lambda>h bucket key file.
               if file = ''out/b.txt'' then Some (ErrNew ''put refused'') else None)\<rparr>"

definition directoryTrace :: trace where
  "directoryTrace =
     [HttpDo ''GET'' ''/artifacts/a1'' None,
      HttpDo ''PUT'' ''/artifacts/a1'' (Some ''state=UPLOADING;message=new;''),
      OsStat ''out'', FilepathWalk ''out'',
      OsStat ''out/a.txt'', OsOpen ''out/a.txt'', FileSeek ''out/a.txt'', FileSeek ''out/a.txt'',
      FileStat ''out/a.txt'', FileSeek ''out/a.txt'', FileSeek ''out/a.txt'',
      S3PutObject ''bkt'' ''p/artifacts/a1/a.txt'' ''out/a.txt'',
      OsStat ''out/b.txt'', OsOpen ''out/b.txt'', FileSeek ''out/b.txt'', FileSeek ''out/b.txt'',
      FileStat ''out/b.txt'', FileSeek ''out/b.txt'', FileSeek ''out/b.txt'',
      S3PutObject ''bkt'' ''p/artifacts/a1/b.txt'' ''out/b.txt'']"
section \<open>The object store adapter: get\<close>

text \<open>
  \<^verbatim>\<open>DownloadFileWithProgress\<close> with a hook and the state of the hook's closures: the
  error it returns with the trace, and the state of the closures afterwards.  The copy
  into the local file reads the response through the tee reader, so every read is a
  \<^verbatim>\<open>Write\<close> of the progress writer; \<^verbatim>\<open>OnDone\<close> is called only when the copy succeeds.
\<close>

definition DownloadFileWithProgress ::
  "env \<Rightarrow> trace \<Rightarrow> string \<Rightarrow> string \<Rightarrow> string \<Rightarrow> 's ProgressHook option \<Rightarrow> 's
     \<Rightarrow> (error option \<times> trace) \<times> 's" where
  "DownloadFileWithProgress E h bucket key localPath hook s =
     (case s3_GetObject E h bucket key of
        Inl err \<Rightarrow>
          ((Some (ErrWrap ''failed to get object from S3'' err), h @ [S3GetObject bucket key]), s)
      | Inr contentLength \<Rightarrow>
          (let h1 = h @ [S3GetObject bucket key];
               s1 = callOnStart hook key (ToInt64 contentLength) s
           in case os_Create E h1 localPath of
                Some err \<Rightarrow>
                  ((Some (ErrWrap ''failed to create local file'' err), h1 @ [OsCreate localPath]), s1)
              | None \<Rightarrow>
                  (let h2 = h1 @ [OsCreate localPath];
                       pw = newProgressWriter key (ToInt64 contentLength) (hookOnProgress hook);
                       start = time_Now E h2;
                       s2 = snd (teeWrites (body_Reads E h2 localPath) pw s1);
                       h3 = h2 @ [IoCopy localPath]
                   in case io_Copy E h2 localPath of
                        Some err \<Rightarrow> ((Some (ErrWrap ''failed to write to local file'' err), h3), s2)
                      | None \<Rightarrow>
                          ((None, h3),
                           callOnDone hook key (ToInt64 contentLength)
                             (time_Sub (time_Now E h3) start) s2))))"

section \<open>Downloading over HTTP and from the object store\<close>






section \<open>The transfer orchestrator: download\<close>


















section \<open>Properties of the merge utility\<close>

lemma size_field: "(k, v) \<in> set m \<Longrightarrow> size v < Suc (size_list (size_prod (\<lambda>x. 0) size) m)"
  by (induction m) auto

lemma MergeMaps_range_fixed:
  assumes "\<And>k v. (k, v) \<in> set xs \<Longrightarrow>
             map_of result k = Some v \<and> MergeMaps_switch ro k (Some v) v cfg = Some v"
  shows "MergeMaps_range ro result xs cfg = Some result"
  using assms
proof (induction xs)
  case Nil
  then show ?case by simp
next
  case (Cons x xs)
  obtain k v where x: "x = (k, v)" by (cases x)
  have h: "map_of result k = Some v \<and> MergeMaps_switch ro k (Some v) v cfg = Some v"
    using Cons.prems [of k v] x by simp
  have "MergeMaps_range ro result xs cfg = Some result"
    using Cons.IH Cons.prems by simp
  with h x show ?case by (simp add: AList.update_triv)
qed

lemma MergeMaps_switch_self:
  "wellformed v \<Longrightarrow> unkeyed cfg k v \<Longrightarrow> MergeMaps_switch ro k (Some v) v cfg = Some v"
proof (induction v arbitrary: k rule: measure_induct_rule [of size])
  case (less v)
  show ?case
  proof (cases v)
    case (VMap m)
    have "MergeMaps_range ro m m cfg = Some m"
    proof (rule MergeMaps_range_fixed)
      fix k' v' assume kv: "(k', v') \<in> set m"
      have d: "distinct (map fst m)" using less.prems VMap by simp
      have 1: "map_of m k' = Some v'" using kv d by simp
      have "size v' < size v" using kv VMap size_field [OF kv] by simp
      moreover have "wellformed v'" using less.prems kv VMap by auto
      moreover have "unkeyed cfg k' v'" using less.prems kv VMap by auto
      ultimately have "MergeMaps_switch ro k' (Some v') v' cfg = Some v'"
        by (rule less.IH)
      with 1 show "map_of m k' = Some v' \<and> MergeMaps_switch ro k' (Some v') v' cfg = Some v'"
        by simp
    qed
    then show ?thesis using VMap by (simp add: MergeMaps.simps)
  next
    case (VSlice arr)
    then show ?thesis using less.prems by (cases cfg) (auto split: option.splits)
  qed simp_all
qed

lemma map_of_absent: "k \<notin> fst ` set xs \<Longrightarrow> map_of xs k = None"
  by (simp add: map_of_eq_None_iff)

lemma indexByKey_spec:
  assumes "distinct (map fst (keyedElems key arr))"
      and "\<forall>(kv, m) \<in> set (keyedElems key arr). hashable kv"
      and "distinct (map fst idx)"
  shows "\<exists>idx'. indexByKey key arr idx = Some idx' \<and> distinct (map fst idx') \<and>
           (\<forall>kv. map_of idx' kv =
              (case map_of (keyedElems key arr) kv of None \<Rightarrow> map_of idx kv | Some m \<Rightarrow> Some m))"
  using assms
proof (induction key arr idx rule: indexByKey.induct)
  case (1 key index)
  then show ?case by simp
next
  case (2 key m rest index)
  show ?case
  proof (cases "map_of m key")
    case None
    then show ?thesis using 2 by simp
  next
    case (Some kv)
    have hk: "hashable kv" using 2(4) Some by simp
    have d: "distinct (map fst (keyedElems key rest))" and nin: "kv \<notin> fst ` set (keyedElems key rest)"
      using 2(3) Some by auto
    have h: "\<forall>(kv, m) \<in> set (keyedElems key rest). hashable kv" using 2(4) Some by simp
    have di: "distinct (map fst (AList.update kv m index))" using 2(5) by (rule AList.distinct_update)
    from 2(2) [OF Some hk d h di] obtain idx' where
      r: "indexByKey key rest (AList.update kv m index) = Some idx'" and
      dd: "distinct (map fst idx')" and
      mm: "\<forall>kv'. map_of idx' kv' =
              (case map_of (keyedElems key rest) kv' of None \<Rightarrow> map_of (AList.update kv m index) kv' | Some m \<Rightarrow> Some m)"
      by blast
    have "\<forall>kv'. map_of idx' kv' =
              (case map_of (keyedElems key (VMap m # rest)) kv' of None \<Rightarrow> map_of index kv' | Some m \<Rightarrow> Some m)"
      using mm Some nin by (auto simp: AList.update_conv' map_of_absent split: option.splits)
    then show ?thesis using r dd Some hk by simp
  qed
qed simp_all

lemma mergeByKey_spec:
  assumes "distinct (map fst (keyedElems key arr))"
      and "\<forall>(kv, m) \<in> set (keyedElems key arr). hashable kv"
      and "distinct (map fst idx)"
      and "\<forall>kv m1 m2. map_of idx kv = Some m1 \<longrightarrow> map_of (keyedElems key arr) kv = Some m2 \<longrightarrow>
             MergeMaps ro m1 m2 cfg \<noteq> None"
  shows "\<exists>idx'. mergeByKey ro idx arr key cfg = Some idx' \<and> distinct (map fst idx') \<and>
           (\<forall>kv. map_of idx' kv =
              (case map_of (keyedElems key arr) kv of
                 None \<Rightarrow> map_of idx kv
               | Some m2 \<Rightarrow> (case map_of idx kv of None \<Rightarrow> Some m2 | Some m1 \<Rightarrow> MergeMaps ro m1 m2 cfg)))"
  using assms
proof (induction arr arbitrary: idx)
  case Nil
  then show ?case by simp
next
  case (Cons x rest)
  show ?case
  proof (cases x)
    case (VMap m)
    show ?thesis
    proof (cases "map_of m key")
      case None
      then show ?thesis using Cons VMap by simp
    next
      case (Some kv)
      have hk: "hashable kv" using Cons.prems(2) Some VMap by simp
      have d: "distinct (map fst (keyedElems key rest))" and nin: "kv \<notin> fst ` set (keyedElems key rest)"
        using Cons.prems(1) Some VMap by auto
      have h: "\<forall>(kv, m) \<in> set (keyedElems key rest). hashable kv"
        using Cons.prems(2) Some VMap by simp
      have K: "map_of (keyedElems key (x # rest)) = (map_of (keyedElems key rest))(kv \<mapsto> m)"
        using Some VMap by auto
      have absent: "map_of (keyedElems key rest) kv = None" using nin by (rule map_of_absent)
      have Kkv: "map_of (keyedElems key (x # rest)) kv = Some m" using K by simp
      have "\<exists>nm. (case map_of idx kv of None \<Rightarrow> Some m | Some m1 \<Rightarrow> MergeMaps ro m1 m cfg) = Some nm"
      proof (cases "map_of idx kv")
        case None
        then show ?thesis by simp
      next
        case (Some m1)
        then have "MergeMaps ro m1 m cfg \<noteq> None" using Cons.prems(4) Kkv by blast
        then show ?thesis using Some by (simp del: MergeMaps.simps)
      qed
      then obtain nm where nm: "(case map_of idx kv of None \<Rightarrow> Some m | Some m1 \<Rightarrow> MergeMaps ro m1 m cfg) = Some nm"
        by blast
      let ?idx2 = "AList.update kv nm idx"
      have step: "mergeByKey ro idx (x # rest) key cfg = mergeByKey ro ?idx2 rest key cfg"
        using VMap Some hk nm by (auto split: option.splits)
      have di: "distinct (map fst ?idx2)" using Cons.prems(3) by (rule AList.distinct_update)
      have pre: "\<forall>kv' m1 m2. map_of ?idx2 kv' = Some m1 \<longrightarrow> map_of (keyedElems key rest) kv' = Some m2 \<longrightarrow>
             MergeMaps ro m1 m2 cfg \<noteq> None"
      proof (intro allI impI)
        fix kv' m1 m2
        assume a: "map_of ?idx2 kv' = Some m1" and b: "map_of (keyedElems key rest) kv' = Some m2"
        have ne: "kv' \<noteq> kv" using b absent by auto
        then have "map_of idx kv' = Some m1" using a by (simp add: AList.update_conv')
        moreover have "map_of (keyedElems key (x # rest)) kv' = Some m2" using K b ne by simp
        ultimately show "MergeMaps ro m1 m2 cfg \<noteq> None" using Cons.prems(4) by blast
      qed
      from Cons.IH [OF d h di pre] obtain idx' where
        r: "mergeByKey ro ?idx2 rest key cfg = Some idx'" and
        dd: "distinct (map fst idx')" and
        mm: "\<forall>kv'. map_of idx' kv' =
              (case map_of (keyedElems key rest) kv' of
                 None \<Rightarrow> map_of ?idx2 kv'
               | Some m2 \<Rightarrow> (case map_of ?idx2 kv' of None \<Rightarrow> Some m2 | Some m1 \<Rightarrow> MergeMaps ro m1 m2 cfg))"
        by blast
      have "map_of idx' kv' =
              (case map_of (keyedElems key (x # rest)) kv' of
                 None \<Rightarrow> map_of idx kv'
               | Some m2 \<Rightarrow> (case map_of idx kv' of None \<Rightarrow> Some m2 | Some m1 \<Rightarrow> MergeMaps ro m1 m2 cfg))" for kv'
      proof (cases "kv' = kv")
        case True
        then show ?thesis using mm absent nm K
          by (auto simp: AList.update_conv' split: option.splits)
      next
        case False
        then show ?thesis using mm K
          by (auto simp: AList.update_conv' split: option.splits)
      qed
      then show ?thesis using step r dd by simp
    qed
  qed (use Cons in simp_all)
qed

lemma MergeMaps_switch_scalar:
  "\<not> isMap v2 \<Longrightarrow> \<not> isSlice v2 \<Longrightarrow> MergeMaps_switch ro k v1 v2 cfg = Some v2"
  by (cases v2) simp_all

lemma MergeMaps_range_untouched:
  "k \<notin> fst ` set xs \<Longrightarrow> MergeMaps_range ro result xs cfg = Some r \<Longrightarrow> map_of r k = map_of result k"
proof (induction xs arbitrary: result)
  case Nil
  then show ?case by simp
next
  case (Cons x xs)
  obtain k' v' where x: "x = (k', v')" by (cases x)
  from Cons.prems x obtain nv where
    nv: "MergeMaps_switch ro k' (map_of result k') v' cfg = Some nv" and
    r: "MergeMaps_range ro (AList.update k' nv result) xs cfg = Some r"
    by (auto split: option.splits)
  have "k \<notin> fst ` set xs" and ne: "k \<noteq> k'" using Cons.prems(1) x by auto
  then have "map_of r k = map_of (AList.update k' nv result) k" using Cons.IH r by blast
  then show ?case using ne by (simp add: AList.update_conv')
qed

lemma MergeMaps_range_overlay:
  assumes "distinct (map fst xs)" and "(k, v2) \<in> set xs" and "\<not> isMap v2" and "\<not> isSlice v2"
      and "MergeMaps_range ro result xs cfg = Some r"
  shows "map_of r k = Some v2"
  using assms
proof (induction xs arbitrary: result)
  case Nil
  then show ?case by simp
next
  case (Cons x xs)
  obtain k' v' where x: "x = (k', v')" by (cases x)
  from Cons.prems(5) x obtain nv where
    nv: "MergeMaps_switch ro k' (map_of result k') v' cfg = Some nv" and
    r: "MergeMaps_range ro (AList.update k' nv result) xs cfg = Some r"
    by (auto split: option.splits)
  show ?case
  proof (cases "(k, v2) \<in> set xs")
    case True
    have "distinct (map fst xs)" using Cons.prems(1) by simp
    then show ?thesis using Cons.IH True Cons.prems(3,4) r by blast
  next
    case False
    then have e: "k' = k" "v' = v2" using Cons.prems(2) x by auto
    have "k \<notin> fst ` set xs" using Cons.prems(1) x e by auto
    then have "map_of r k = map_of (AList.update k' nv result) k"
      using r by (rule MergeMaps_range_untouched)
    moreover have "nv = v2" using nv e Cons.prems(3,4) by (simp add: MergeMaps_switch_scalar)
    ultimately show ?thesis using e by (simp add: AList.update_conv')
  qed
qed

lemma MergeMaps_range_field:
  assumes "distinct (map fst xs)" and "map_of xs f = Some v2"
      and "MergeMaps_range ro result xs cfg = Some r"
  shows "\<exists>v. MergeMaps_switch ro f (map_of result f) v2 cfg = Some v \<and> map_of r f = Some v"
  using assms
proof (induction xs arbitrary: result)
  case Nil
  then show ?case by simp
next
  case (Cons x xs)
  obtain k' v' where x: "x = (k', v')" by (cases x)
  from Cons.prems(3) x obtain nv where
    nv: "MergeMaps_switch ro k' (map_of result k') v' cfg = Some nv" and
    r: "MergeMaps_range ro (AList.update k' nv result) xs cfg = Some r"
    by (auto split: option.splits)
  show ?case
  proof (cases "k' = f")
    case True
    then have v: "v' = v2" using Cons.prems(2) x by simp
    have "f \<notin> fst ` set xs" using Cons.prems(1) x True by auto
    then have "map_of r f = map_of (AList.update k' nv result) f"
      using r by (rule MergeMaps_range_untouched)
    then have "map_of r f = Some nv" using True by (simp add: AList.update_conv')
    then show ?thesis using nv True v by simp
  next
    case False
    have d: "distinct (map fst xs)" using Cons.prems(1) by simp
    have m: "map_of xs f = Some v2" using Cons.prems(2) x False by simp
    from Cons.IH [OF d m r] False show ?thesis by (simp add: AList.update_conv')
  qed
qed

lemma MergeMaps_field:
  assumes "distinct (map fst m2)" and "map_of m2 f = Some v2" and "MergeMaps ro m1 m2 cfg = Some r"
  shows "\<exists>v. MergeMaps_switch ro f (map_of m1 f) v2 cfg = Some v \<and> map_of r f = Some v"
proof -
  have "MergeMaps_range ro m1 m2 cfg = Some r" using assms(3) by (simp add: MergeMaps.simps)
  with assms(1,2) show ?thesis by (rule MergeMaps_range_field)
qed

lemma MergeMaps_base_only:
  assumes "map_of m2 f = None" and "MergeMaps ro m1 m2 cfg = Some r"
  shows "map_of r f = map_of m1 f"
proof -
  have "MergeMaps_range ro m1 m2 cfg = Some r" using assms(2) by (simp add: MergeMaps.simps)
  moreover have "f \<notin> fst ` set m2" using assms(1) by (simp add: map_of_eq_None_iff)
  ultimately show ?thesis by (rule MergeMaps_range_untouched [rotated])
qed

lemma MergeMaps_nested:
  assumes "distinct (map fst m2)" and "map_of m1 f = Some (VMap a)" and "map_of m2 f = Some (VMap b)"
      and "MergeMaps ro m1 m2 cfg = Some r"
  shows "\<exists>c. MergeMaps ro a b cfg = Some c \<and> map_of r f = Some (VMap c)"
proof -
  from MergeMaps_field [OF assms(1,3,4)] obtain v where
    "MergeMaps_switch ro f (Some (VMap a)) (VMap b) cfg = Some v" and "map_of r f = Some v"
    using assms(2) by auto
  then show ?thesis by (auto split: option.splits)
qed

lemma MergeMaps_keyed_array:
  assumes "distinct (map fst m2)" and "map_of m1 f = Some (VSlice arr1)" and "map_of m2 f = Some (VSlice arr2)"
      and "cfg = Some c" and "c f = Some key"
      and "looksLikeArrayOfMaps arr1" and "looksLikeArrayOfMaps arr2"
      and "MergeMaps ro m1 m2 cfg = Some r"
  shows "\<exists>arr. mergeArrayOfMapsByKey ro arr1 arr2 key cfg = Some arr \<and> map_of r f = Some (VSlice arr)"
proof -
  from MergeMaps_field [OF assms(1,3,8)] obtain v where
    "MergeMaps_switch ro f (Some (VSlice arr1)) (VSlice arr2) cfg = Some v" and "map_of r f = Some v"
    using assms(2) by auto
  then show ?thesis using assms(4-7) by (auto split: option.splits simp del: mergeArrayOfMapsByKey.simps)
qed

lemma mergeArrayOfMapsByKey_index:
  assumes d1: "distinct (map fst (keyedElems key arr1))"
      and d2: "distinct (map fst (keyedElems key arr2))"
      and h: "\<forall>(kv, m) \<in> set (keyedElems key arr1 @ keyedElems key arr2). hashable kv"
      and ok: "\<forall>kv m1 m2. map_of (keyedElems key arr1) kv = Some m1 \<longrightarrow>
                 map_of (keyedElems key arr2) kv = Some m2 \<longrightarrow> MergeMaps ro m1 m2 cfg \<noteq> None"
  shows "\<exists>index. mergeArrayOfMapsByKey ro arr1 arr2 key cfg = Some (map (\<lambda>(kv, m). VMap m) (ro index))
           \<and> distinct (map fst index)
           \<and> (\<forall>kv. map_of index kv =
                (case map_of (keyedElems key arr1) kv of
                   None \<Rightarrow> map_of (keyedElems key arr2) kv
                 | Some m1 \<Rightarrow>
                     (case map_of (keyedElems key arr2) kv of
                        None \<Rightarrow> Some m1
                      | Some m2 \<Rightarrow> MergeMaps ro m1 m2 cfg)))"
proof -
  have h1: "\<forall>(kv, m) \<in> set (keyedElems key arr1). hashable kv"
   and h2: "\<forall>(kv, m) \<in> set (keyedElems key arr2). hashable kv" using h by auto
  have "distinct (map fst ([] :: index))" by simp
  from indexByKey_spec [OF d1 h1 this] obtain idx1 where
    i1: "indexByKey key arr1 [] = Some idx1" and di1: "distinct (map fst idx1)" and
    m1': "\<forall>kv. map_of idx1 kv =
            (case map_of (keyedElems key arr1) kv of None \<Rightarrow> map_of [] kv | Some m \<Rightarrow> Some m)"
    by blast
  have m1: "\<forall>kv. map_of idx1 kv = map_of (keyedElems key arr1) kv"
  proof
    fix kv
    show "map_of idx1 kv = map_of (keyedElems key arr1) kv"
      by (cases "map_of (keyedElems key arr1) kv") (simp_all add: m1')
  qed
  have pre: "\<forall>kv m1 m2. map_of idx1 kv = Some m1 \<longrightarrow> map_of (keyedElems key arr2) kv = Some m2 \<longrightarrow>
             MergeMaps ro m1 m2 cfg \<noteq> None"
    using ok m1 by simp
  from mergeByKey_spec [OF d2 h2 di1 pre] obtain idx2 where
    i2: "mergeByKey ro idx1 arr2 key cfg = Some idx2" and di2: "distinct (map fst idx2)" and
    m2: "\<forall>kv. map_of idx2 kv =
              (case map_of (keyedElems key arr2) kv of
                 None \<Rightarrow> map_of idx1 kv
               | Some m2 \<Rightarrow> (case map_of idx1 kv of None \<Rightarrow> Some m2 | Some m1 \<Rightarrow> MergeMaps ro m1 m2 cfg))"
    by blast
  have "mergeArrayOfMapsByKey ro arr1 arr2 key cfg = Some (map (\<lambda>(kv, m). VMap m) (ro idx2))"
    using i1 i2 by simp
  moreover have "\<forall>kv. map_of idx2 kv =
                (case map_of (keyedElems key arr1) kv of
                   None \<Rightarrow> map_of (keyedElems key arr2) kv
                 | Some m1 \<Rightarrow>
                     (case map_of (keyedElems key arr2) kv of
                        None \<Rightarrow> Some m1
                      | Some m2 \<Rightarrow> MergeMaps ro m1 m2 cfg))"
  proof
    fix kv
    show "map_of idx2 kv =
                (case map_of (keyedElems key arr1) kv of
                   None \<Rightarrow> map_of (keyedElems key arr2) kv
                 | Some m1 \<Rightarrow>
                     (case map_of (keyedElems key arr2) kv of
                        None \<Rightarrow> Some m1
                      | Some m2 \<Rightarrow> MergeMaps ro m1 m2 cfg))"
      using m1 [rule_format, of kv] m2 [rule_format, of kv]
      by (cases "map_of (keyedElems key arr1) kv"; cases "map_of (keyedElems key arr2) kv") simp_all
  qed
  ultimately show ?thesis using di2 by blast
qed

lemma set_update_subset: "set (AList.update k v al) \<subseteq> insert (k, v) (set al)"
  by (induction al) auto

lemma size_elem: "x \<in> set xs \<Longrightarrow> size x < Suc (size_list size xs)"
  by (induction xs) auto

lemma keysScalar_update:
  assumes "keysScalar K (VMap result)" and "keysScalar K v" and "K k \<longrightarrow> hashable v"
  shows "keysScalar K (VMap (AList.update k v result))"
  using assms set_update_subset [of k v result] by auto

lemma indexByKey_scalar:
  assumes "\<forall>x \<in> set arr. keysScalar K x" and "K key"
      and "\<forall>(kv, m) \<in> set idx. keysScalar K (VMap m)"
  shows "\<exists>idx'. indexByKey key arr idx = Some idx' \<and> (\<forall>(kv, m) \<in> set idx'. keysScalar K (VMap m))"
  using assms
proof (induction key arr idx rule: indexByKey.induct)
  case (1 key index)
  then show ?case by simp
next
  case (2 key m rest index)
  show ?case
  proof (cases "map_of m key")
    case None
    then show ?thesis using 2 by simp
  next
    case (Some kv)
    have km: "keysScalar K (VMap m)" using 2(3) by simp
    have "(key, kv) \<in> set m" using Some by (rule map_of_SomeD)
    then have hk: "hashable kv" using km 2(4) by auto
    have "\<forall>(kv', m') \<in> set (AList.update kv m index). keysScalar K (VMap m')"
      using 2(5) km set_update_subset [of kv m index] by blast
    from 2(2) [OF Some hk _ 2(4) this] 2(3) Some hk show ?thesis by simp
  qed
qed simp_all

lemma MergeMaps_switch_scalar_keys:
  assumes perm: "\<forall>ix. set (ro ix) \<subseteq> set ix"
      and keys: "\<forall>c f key. cfg = Some c \<longrightarrow> c f = Some key \<longrightarrow> K key"
  shows "(case v1 of None \<Rightarrow> True | Some w \<Rightarrow> keysScalar K w) \<Longrightarrow> keysScalar K v2 \<Longrightarrow>
         \<exists>v. MergeMaps_switch ro k v1 v2 cfg = Some v \<and> keysScalar K v \<and> (hashable v2 \<longrightarrow> v = v2)"
proof (induction v2 arbitrary: k v1 rule: measure_induct_rule [of size])
  case (less v2)
  have merge: "\<exists>r. MergeMaps ro m1 m2 cfg = Some r \<and> keysScalar K (VMap r)"
    if b: "\<And>k v. (k, v) \<in> set m2 \<Longrightarrow> size v < size v2"
       and k1: "keysScalar K (VMap m1)" and k2: "keysScalar K (VMap m2)" for m1 m2
  proof -
    have "\<exists>r. MergeMaps_range ro result xs cfg = Some r \<and> keysScalar K (VMap r)"
      if "keysScalar K (VMap result)"
         and "\<And>k v. (k, v) \<in> set xs \<Longrightarrow> size v < size v2 \<and> keysScalar K v \<and> (K k \<longrightarrow> hashable v)"
      for result xs
      using that
    proof (induction xs arbitrary: result)
      case Nil
      then show ?case by simp
    next
      case (Cons x xs)
      obtain k' v' where x: "x = (k', v')" by (cases x)
      have p: "size v' < size v2" "keysScalar K v'" "K k' \<longrightarrow> hashable v'"
        using Cons.prems(2) [of k' v'] x by simp_all
      have old: "case map_of result k' of None \<Rightarrow> True | Some w \<Rightarrow> keysScalar K w"
      proof (cases "map_of result k'")
        case None
        then show ?thesis by simp
      next
        case (Some w)
        then have "(k', w) \<in> set result" by (rule map_of_SomeD)
        then show ?thesis using Cons.prems(1) Some by auto
      qed
      from less.IH [OF p(1) old p(2)] obtain nv where
        nv: "MergeMaps_switch ro k' (map_of result k') v' cfg = Some nv" "keysScalar K nv"
            "hashable v' \<longrightarrow> nv = v'"
        by blast
      have "K k' \<longrightarrow> hashable nv" using p(3) nv(3) by auto
      then have "keysScalar K (VMap (AList.update k' nv result))"
        using Cons.prems(1) nv(2) by (intro keysScalar_update)
      moreover have "size v < size v2 \<and> keysScalar K v \<and> (K k \<longrightarrow> hashable v)"
        if "(k, v) \<in> set xs" for k v
        using Cons.prems(2) [of k v] that by simp
      ultimately have "\<exists>r. MergeMaps_range ro (AList.update k' nv result) xs cfg = Some r
                         \<and> keysScalar K (VMap r)"
        by (rule Cons.IH)
      then show ?case using x nv(1) by simp
    qed
    note range = this
    have "size v < size v2 \<and> keysScalar K v \<and> (K k \<longrightarrow> hashable v)" if "(k, v) \<in> set m2" for k v
      using b [OF that] k2 that by auto
    with k1 have "\<exists>r. MergeMaps_range ro m1 m2 cfg = Some r \<and> keysScalar K (VMap r)"
      by (rule range)
    then show ?thesis by (simp add: MergeMaps.simps)
  qed
  show ?case
  proof (cases v2)
    case (VMap m2)
    have b: "size v < size v2" if "(k, v) \<in> set m2" for k v
      using that VMap size_field [OF that] by simp
    show ?thesis
    proof (cases v1)
      case None
      then show ?thesis using VMap less.prems by simp
    next
      case (Some w)
      show ?thesis
      proof (cases w)
        case w: (VMap m1)
        have "keysScalar K (VMap m1)" using less.prems(1) Some w by simp
        moreover have "keysScalar K (VMap m2)" using less.prems(2) VMap by simp
        ultimately obtain r where "MergeMaps ro m1 m2 cfg = Some r" "keysScalar K (VMap r)"
          using merge [of m2 m1] b by blast
        then show ?thesis using VMap Some w by simp
      qed (use VMap Some less.prems in simp_all)
    qed
  next
    case (VSlice arr2)
    have plain: ?thesis if "MergeMaps_switch ro k v1 v2 cfg = Some v2"
      using that less.prems(2) by simp
    show ?thesis
    proof (cases v1)
      case None
      then show ?thesis using VSlice plain by simp
    next
      case (Some w)
      show ?thesis
      proof (cases w)
        case w: (VSlice arr1)
        show ?thesis
        proof (cases cfg)
          case None
          then show ?thesis using VSlice Some w plain by simp
        next
          case c: (Some c)
          show ?thesis
          proof (cases "c k")
            case None
            then show ?thesis using VSlice Some w c plain by simp
          next
            case key: (Some key)
            show ?thesis
            proof (cases "looksLikeArrayOfMaps arr1 \<and> looksLikeArrayOfMaps arr2")
              case False
              then show ?thesis using VSlice Some w c key plain by auto
            next
              case True
              have K: "K key" using keys c key by blast
              have k1: "\<forall>x \<in> set arr1. keysScalar K x" using less.prems(1) Some w by simp
              have k2: "\<forall>x \<in> set arr2. keysScalar K x" using less.prems(2) VSlice by simp
              have "\<forall>(kv, m) \<in> set ([] :: index). keysScalar K (VMap m)" by simp
              from indexByKey_scalar [OF k1 K this] obtain idx1 where
                i1: "indexByKey key arr1 [] = Some idx1"
                and s1: "\<forall>(kv, m) \<in> set idx1. keysScalar K (VMap m)" by blast
              have "\<exists>idx'. mergeByKey ro idx xs key cfg = Some idx'
                      \<and> (\<forall>(kv, m) \<in> set idx'. keysScalar K (VMap m))"
                if "\<forall>(kv, m) \<in> set idx. keysScalar K (VMap m)" and "set xs \<subseteq> set arr2" for idx xs
                using that
              proof (induction xs arbitrary: idx)
                case Nil
                then show ?case by simp
              next
                case (Cons x xs)
                have xs: "set xs \<subseteq> set arr2" and xin: "x \<in> set arr2" using Cons.prems(2) by auto
                show ?case
                proof (cases x)
                  case (VMap m)
                  have "keysScalar K x" using k2 xin by blast
                  then have km: "keysScalar K (VMap m)" using VMap by simp
                  show ?thesis
                  proof (cases "map_of m key")
                    case None
                    then show ?thesis using Cons.IH [OF Cons.prems(1) xs] VMap by simp
                  next
                    case kv: (Some kv)
                    have "(key, kv) \<in> set m" using kv by (rule map_of_SomeD)
                    then have hk: "hashable kv" using km K by auto
                    show ?thesis
                    proof (cases "map_of idx kv")
                      case None
                      have "\<forall>(kv', m') \<in> set (AList.update kv m idx). keysScalar K (VMap m')"
                        using Cons.prems(1) km set_update_subset [of kv m idx] by blast
                      from Cons.IH [OF this xs] show ?thesis using VMap kv hk None by simp
                    next
                      case (Some existing)
                      then have "(kv, existing) \<in> set idx" by (rule map_of_SomeD)
                      then have ke: "keysScalar K (VMap existing)" using Cons.prems(1) by auto
                      have "size (VMap m) < size v2"
                        using xin VMap \<open>v2 = VSlice arr2\<close> size_elem [of x arr2] by simp
                      then have b: "size v < size v2" if "(k, v) \<in> set m" for k v
                        using size_field [OF that] by simp
                      from merge [of m existing] b ke km obtain merged where
                        mg: "MergeMaps ro existing m cfg = Some merged" "keysScalar K (VMap merged)"
                        by blast
                      have "\<forall>(kv', m') \<in> set (AList.update kv merged idx). keysScalar K (VMap m')"
                        using Cons.prems(1) mg(2) set_update_subset [of kv merged idx] by blast
                      from Cons.IH [OF this xs] show ?thesis
                        using VMap kv hk Some mg(1) by (simp del: MergeMaps.simps)
                    qed
                  qed
                qed (use Cons.IH [OF Cons.prems(1) xs] in simp_all)
              qed
              from this [OF s1, of arr2] obtain idx2 where
                i2: "mergeByKey ro idx1 arr2 key cfg = Some idx2"
                and s2: "\<forall>(kv, m) \<in> set idx2. keysScalar K (VMap m)" by auto
              have "keysScalar K x" if "x \<in> set (map (\<lambda>(kv, m). VMap m) (ro idx2))" for x
              proof -
                from that obtain kv m where m: "(kv, m) \<in> set (ro idx2)" "x = VMap m" by auto
                then have "(kv, m) \<in> set idx2" using perm by blast
                then show ?thesis using s2 m(2) by (auto simp del: keysScalar.simps)
              qed
              then have "keysScalar K (VSlice (map (\<lambda>(kv, m). VMap m) (ro idx2)))"
                by (simp del: set_map)
              then show ?thesis using VSlice Some w c key True i1 i2 by (simp del: keysScalar.simps)
            qed
          qed
        qed
      qed (use VSlice Some plain in simp_all)
    qed
  qed (use less.prems in simp_all)
qed

lemma MergeMaps_scalar_keys:
  assumes "\<forall>ix. mset (ro ix) = mset ix"
      and "keysScalar (isMergeKey cfg) (VMap m1)" and "keysScalar (isMergeKey cfg) (VMap m2)"
  shows "MergeMaps ro m1 m2 cfg \<noteq> None"
proof -
  have perm: "\<forall>ix. set (ro ix) \<subseteq> set ix"
    using assms(1) by (metis mset_eq_setD subset_refl)
  have keys: "\<forall>c f key. cfg = Some c \<longrightarrow> c f = Some key \<longrightarrow> isMergeKey cfg key"
    by (auto simp: isMergeKey_def)
  from MergeMaps_switch_scalar_keys [OF perm keys, of "Some (VMap m1)" "VMap m2" "[]"] assms(2,3)
  show ?thesis by (auto split: option.splits)
qed

lemma keyedElems_elem: "(kv, m) \<in> set (keyedElems key arr) \<Longrightarrow> VMap m \<in> set arr"
  by (induction key arr rule: keyedElems.induct) (auto split: option.splits)

lemma example_merge:
  "mergeArrayOfMapsByKey ro exampleBase exampleOverlay ''name'' cfg =
     Some (map (\<lambda>(kv, m). VMap m)
       (ro [(VStr ''a'', [(''name'', VStr ''a''), (''v'', VFloat64 1)]),
            (VStr ''b'', [(''name'', VStr ''b''), (''v'', VFloat64 3)]),
            (VStr ''c'', [(''name'', VStr ''c''), (''v'', VFloat64 4)])]))"
  by (simp add: exampleBase_def exampleOverlay_def MergeMaps.simps)


lemma unkeyed_empty_config: "unkeyed (Some Map.empty) k v"
proof (induction v arbitrary: k rule: measure_induct_rule [of size])
  case (less v)
  show ?case
  proof (cases v)
    case (VMap m)
    have "unkeyed (Some Map.empty) k' v'" if "(k', v') \<in> set m" for k' v'
    proof -
      have "size v' < size v" using that VMap size_field [OF that] by simp
      then show ?thesis by (rule less.IH)
    qed
    then show ?thesis using VMap by auto
  qed simp_all
qed

lemma example_nested:
  assumes "\<forall>ix. mset (ro ix) = mset ix"
  shows "mergeArrayOfMapsByKey ro nestedBase nestedOverlay ''name'' cfg =
           Some [VMap [(''name'', VStr ''b''), (''v'', VFloat64 2),
                       (''meta'', VMap [(''x'', VFloat64 1), (''y'', VFloat64 3)])]]"
proof -
  let ?m = "[(''name'', VStr ''b''), (''v'', VFloat64 2),
             (''meta'', VMap [(''x'', VFloat64 1), (''y'', VFloat64 3)])]"
  have "mset (ro [(VStr ''b'', ?m)]) = {#(VStr ''b'', ?m)#}" using assms by simp
  then have "ro [(VStr ''b'', ?m)] = [(VStr ''b'', ?m)]" by simp
  then show ?thesis by (simp add: nestedBase_def nestedOverlay_def MergeMaps.simps)
qed

text \<open>
  The index compares keys as Go compares values of type \<^verbatim>\<open>interface{}\<close>: a key of type
  \<^verbatim>\<open>int64\<close> and a key of type \<^verbatim>\<open>float64\<close> are two keys, so the two elements are kept
  apart.
\<close>

lemma mergeArrayOfMapsByKey_number_types:
  "mergeArrayOfMapsByKey (\<lambda>ix. ix) [VMap [(''name'', VInt64 1)]] [VMap [(''name'', VFloat64 1)]]
       ''name'' cfg
     = Some [VMap [(''name'', VInt64 1)], VMap [(''name'', VFloat64 1)]]"
  by simp

text \<open>
  C5 (amended).  Let two arrays be merged by \<^verbatim>\<open>mergeArrayOfMapsByKey\<close> on a key, under any
  order in which Go may range over the index.  Suppose the key values are scalars
  and distinct within each array, and no document inside the elements holds a document
  or an array at a field that is a merge key.  Then
  the result holds exactly the maps of an index with one entry per key value of either
  array: the element of the side that alone has the key value, unchanged, and the merge
  of the base element with the overlay element where both have it.  Elements without
  the key are not in the index, so they are dropped.  The merge of two elements is
  recursive: a field that only the base element has is kept; at a field where the
  overlay's value is neither a document nor an array the overlay wins; where both
  values are documents the field holds their merge; a document of the overlay replaces
  a value of the base that is not one; two arrays under a keyed-array rule are merged by
  key in turn, and otherwise the overlay's array wins.  For the example of the
  specification the result holds one entry each for a (v=1), b (v=3) and c (v=4), in
  whatever order, also when the example is reached through \<^verbatim>\<open>MergeMaps\<close> with a rule for
  the field; for two same-key elements with a nested document the result is the one
  element that keeps the base's \<^verbatim>\<open>v\<close> and \<^verbatim>\<open>meta.x\<close> and takes the overlay's \<^verbatim>\<open>meta.y\<close>.
\<close>

theorem mergeArrayOfMapsByKey_keyed:
  assumes perm: "\<forall>ix. mset (ro ix) = mset ix"
      and d1: "distinct (map fst (keyedElems key arr1))"
      and d2: "distinct (map fst (keyedElems key arr2))"
      and h: "\<forall>(kv, m) \<in> set (keyedElems key arr1 @ keyedElems key arr2). hashable kv"
      and ks: "\<forall>x \<in> set (arr1 @ arr2). keysScalar (isMergeKey cfg) x"
  shows "(\<exists>index res.
            mergeArrayOfMapsByKey ro arr1 arr2 key cfg = Some res
          \<and> mset res = image_mset (\<lambda>(kv, m). VMap m) (mset index)
          \<and> distinct (map fst index)
          \<and> (\<forall>kv. map_of index kv =
                (case map_of (keyedElems key arr1) kv of
                   None \<Rightarrow> map_of (keyedElems key arr2) kv
                 | Some m1 \<Rightarrow>
                     (case map_of (keyedElems key arr2) kv of
                        None \<Rightarrow> Some m1
                      | Some m2 \<Rightarrow> MergeMaps ro m1 m2 cfg))))
       \<and> (\<forall>m1 m2 r. MergeMaps ro m1 m2 cfg = Some r \<longrightarrow> distinct (map fst m2) \<longrightarrow>
             (\<forall>f. map_of m2 f = None \<longrightarrow> map_of r f = map_of m1 f)
           \<and> (\<forall>f v2. map_of m2 f = Some v2 \<longrightarrow> \<not> isMap v2 \<longrightarrow> \<not> isSlice v2 \<longrightarrow>
                  map_of r f = Some v2)
           \<and> (\<forall>f a b. map_of m1 f = Some (VMap a) \<longrightarrow> map_of m2 f = Some (VMap b) \<longrightarrow>
                  (\<exists>c. MergeMaps ro a b cfg = Some c \<and> map_of r f = Some (VMap c)))
           \<and> (\<forall>f b. map_of m2 f = Some (VMap b) \<longrightarrow> (\<forall>a. map_of m1 f \<noteq> Some (VMap a)) \<longrightarrow>
                  map_of r f = Some (VMap b))
           \<and> (\<forall>f a b c k. map_of m1 f = Some (VSlice a) \<longrightarrow> map_of m2 f = Some (VSlice b) \<longrightarrow>
                  cfg = Some c \<longrightarrow> c f = Some k \<longrightarrow>
                  looksLikeArrayOfMaps a \<longrightarrow> looksLikeArrayOfMaps b \<longrightarrow>
                  (\<exists>arr. mergeArrayOfMapsByKey ro a b k cfg = Some arr \<and> map_of r f = Some (VSlice arr)))
           \<and> (\<forall>f b. map_of m2 f = Some (VSlice b) \<longrightarrow>
                  (\<forall>a. map_of m1 f = Some (VSlice a) \<longrightarrow> \<not> (ruleApplies cfg f a \<and> ruleApplies cfg f b)) \<longrightarrow>
                  map_of r f = Some (VSlice b)))
       \<and> (\<exists>res. mergeArrayOfMapsByKey ro exampleBase exampleOverlay ''name'' cfg = Some res
             \<and> mset res = {# VMap [(''name'', VStr ''a''), (''v'', VFloat64 1)],
                             VMap [(''name'', VStr ''b''), (''v'', VFloat64 3)],
                             VMap [(''name'', VStr ''c''), (''v'', VFloat64 4)] #})
       \<and> (\<exists>res. MergeMaps ro [(''files'', VSlice exampleBase)] [(''files'', VSlice exampleOverlay)]
                    (Some [''files'' \<mapsto> ''name'']) = Some [(''files'', VSlice res)]
             \<and> mset res = {# VMap [(''name'', VStr ''a''), (''v'', VFloat64 1)],
                             VMap [(''name'', VStr ''b''), (''v'', VFloat64 3)],
                             VMap [(''name'', VStr ''c''), (''v'', VFloat64 4)] #})
       \<and> mergeArrayOfMapsByKey ro nestedBase nestedOverlay ''name'' cfg =
           Some [VMap [(''name'', VStr ''b''), (''v'', VFloat64 2),
                       (''meta'', VMap [(''x'', VFloat64 1), (''y'', VFloat64 3)])]]"
proof (intro conjI)
  have ok: "\<forall>kv m1 m2. map_of (keyedElems key arr1) kv = Some m1 \<longrightarrow>
                 map_of (keyedElems key arr2) kv = Some m2 \<longrightarrow> MergeMaps ro m1 m2 cfg \<noteq> None"
  proof (intro allI impI)
    fix kv m1 m2
    assume "map_of (keyedElems key arr1) kv = Some m1" and "map_of (keyedElems key arr2) kv = Some m2"
    then have "VMap m1 \<in> set arr1" and "VMap m2 \<in> set arr2"
      by (auto dest!: map_of_SomeD keyedElems_elem)
    then have "keysScalar (isMergeKey cfg) (VMap m1)" and "keysScalar (isMergeKey cfg) (VMap m2)"
      using ks by (auto simp del: keysScalar.simps)
    with perm show "MergeMaps ro m1 m2 cfg \<noteq> None" by (rule MergeMaps_scalar_keys)
  qed
  from mergeArrayOfMapsByKey_index [OF d1 d2 h ok] obtain index where
    r: "mergeArrayOfMapsByKey ro arr1 arr2 key cfg = Some (map (\<lambda>(kv, m). VMap m) (ro index))" and
    d: "distinct (map fst index)" and
    m: "\<forall>kv. map_of index kv =
                (case map_of (keyedElems key arr1) kv of
                   None \<Rightarrow> map_of (keyedElems key arr2) kv
                 | Some m1 \<Rightarrow>
                     (case map_of (keyedElems key arr2) kv of
                        None \<Rightarrow> Some m1
                      | Some m2 \<Rightarrow> MergeMaps ro m1 m2 cfg))"
    by blast
  have "mset (map (\<lambda>(kv, m). VMap m) (ro index)) = image_mset (\<lambda>(kv, m). VMap m) (mset index)"
    using perm by simp
  with r d m show "\<exists>index res.
            mergeArrayOfMapsByKey ro arr1 arr2 key cfg = Some res
          \<and> mset res = image_mset (\<lambda>(kv, m). VMap m) (mset index)
          \<and> distinct (map fst index)
          \<and> (\<forall>kv. map_of index kv =
                (case map_of (keyedElems key arr1) kv of
                   None \<Rightarrow> map_of (keyedElems key arr2) kv
                 | Some m1 \<Rightarrow>
                     (case map_of (keyedElems key arr2) kv of
                        None \<Rightarrow> Some m1
                      | Some m2 \<Rightarrow> MergeMaps ro m1 m2 cfg)))"
    by blast
next
  show "\<forall>m1 m2 r. MergeMaps ro m1 m2 cfg = Some r \<longrightarrow> distinct (map fst m2) \<longrightarrow>
             (\<forall>f. map_of m2 f = None \<longrightarrow> map_of r f = map_of m1 f)
           \<and> (\<forall>f v2. map_of m2 f = Some v2 \<longrightarrow> \<not> isMap v2 \<longrightarrow> \<not> isSlice v2 \<longrightarrow>
                  map_of r f = Some v2)
           \<and> (\<forall>f a b. map_of m1 f = Some (VMap a) \<longrightarrow> map_of m2 f = Some (VMap b) \<longrightarrow>
                  (\<exists>c. MergeMaps ro a b cfg = Some c \<and> map_of r f = Some (VMap c)))
           \<and> (\<forall>f b. map_of m2 f = Some (VMap b) \<longrightarrow> (\<forall>a. map_of m1 f \<noteq> Some (VMap a)) \<longrightarrow>
                  map_of r f = Some (VMap b))
           \<and> (\<forall>f a b c k. map_of m1 f = Some (VSlice a) \<longrightarrow> map_of m2 f = Some (VSlice b) \<longrightarrow>
                  cfg = Some c \<longrightarrow> c f = Some k \<longrightarrow>
                  looksLikeArrayOfMaps a \<longrightarrow> looksLikeArrayOfMaps b \<longrightarrow>
                  (\<exists>arr. mergeArrayOfMapsByKey ro a b k cfg = Some arr \<and> map_of r f = Some (VSlice arr)))
           \<and> (\<forall>f b. map_of m2 f = Some (VSlice b) \<longrightarrow>
                  (\<forall>a. map_of m1 f = Some (VSlice a) \<longrightarrow> \<not> (ruleApplies cfg f a \<and> ruleApplies cfg f b)) \<longrightarrow>
                  map_of r f = Some (VSlice b))"
  proof (intro allI impI conjI)
    fix m1 m2 r f
    assume "MergeMaps ro m1 m2 cfg = Some r" and "map_of m2 f = None"
    then show "map_of r f = map_of m1 f" by (rule MergeMaps_base_only [rotated])
  next
    fix m1 m2 r f v2
    assume a: "MergeMaps ro m1 m2 cfg = Some r" and d: "distinct (map fst m2)"
       and f: "map_of m2 f = Some v2" and n: "\<not> isMap v2" "\<not> isSlice v2"
    from MergeMaps_field [OF d f a] show "map_of r f = Some v2"
      using n by (simp add: MergeMaps_switch_scalar)
  next
    fix m1 m2 r f a b
    assume "MergeMaps ro m1 m2 cfg = Some r" and "distinct (map fst m2)"
       and "map_of m1 f = Some (VMap a)" and "map_of m2 f = Some (VMap b)"
    then show "\<exists>c. MergeMaps ro a b cfg = Some c \<and> map_of r f = Some (VMap c)"
      using MergeMaps_nested by blast
  next
    fix m1 m2 r f b
    assume a: "MergeMaps ro m1 m2 cfg = Some r" and d: "distinct (map fst m2)"
       and f: "map_of m2 f = Some (VMap b)" and n: "\<forall>a. map_of m1 f \<noteq> Some (VMap a)"
    from MergeMaps_field [OF d f a] obtain v where
      v: "MergeMaps_switch ro f (map_of m1 f) (VMap b) cfg = Some v" "map_of r f = Some v" by blast
    have "MergeMaps_switch ro f (map_of m1 f) (VMap b) cfg = Some (VMap b)"
    proof (cases "map_of m1 f")
      case None
      then show ?thesis by simp
    next
      case (Some w)
      then show ?thesis using n by (cases w) simp_all
    qed
    with v show "map_of r f = Some (VMap b)" by simp
  next
    fix m1 m2 r f a b c k
    assume "MergeMaps ro m1 m2 cfg = Some r" and "distinct (map fst m2)"
       and "map_of m1 f = Some (VSlice a)" and "map_of m2 f = Some (VSlice b)"
       and "cfg = Some c" and "c f = Some k"
       and "looksLikeArrayOfMaps a" and "looksLikeArrayOfMaps b"
    then show "\<exists>arr. mergeArrayOfMapsByKey ro a b k cfg = Some arr \<and> map_of r f = Some (VSlice arr)"
      using MergeMaps_keyed_array by blast
  next
    fix m1 m2 r f b
    assume a: "MergeMaps ro m1 m2 cfg = Some r" and d: "distinct (map fst m2)"
       and f: "map_of m2 f = Some (VSlice b)"
       and n: "\<forall>a. map_of m1 f = Some (VSlice a) \<longrightarrow> \<not> (ruleApplies cfg f a \<and> ruleApplies cfg f b)"
    from MergeMaps_field [OF d f a] obtain v where
      v: "MergeMaps_switch ro f (map_of m1 f) (VSlice b) cfg = Some v" "map_of r f = Some v" by blast
    have "MergeMaps_switch ro f (map_of m1 f) (VSlice b) cfg = Some (VSlice b)"
    proof (cases "map_of m1 f")
      case None
      then show ?thesis by simp
    next
      case (Some w)
      show ?thesis
      proof (cases w)
        case (VSlice a)
        then have "\<not> (ruleApplies cfg f a \<and> ruleApplies cfg f b)" using n Some by simp
        then show ?thesis using Some VSlice
          by (cases cfg) (auto split: option.splits simp del: mergeArrayOfMapsByKey.simps)
      qed (use Some in simp_all)
    qed
    with v show "map_of r f = Some (VSlice b)" by simp
  qed
next
  let ?ix = "[(VStr ''a'', [(''name'', VStr ''a''), (''v'', VFloat64 1)]),
            (VStr ''b'', [(''name'', VStr ''b''), (''v'', VFloat64 3)]),
            (VStr ''c'', [(''name'', VStr ''c''), (''v'', VFloat64 4)])]"
  have e: "mset (map (\<lambda>(kv, m). VMap m) (ro ?ix)) = image_mset (\<lambda>(kv, m). VMap m) (mset ?ix)"
    using perm by simp
  then show "\<exists>res. mergeArrayOfMapsByKey ro exampleBase exampleOverlay ''name'' cfg = Some res
             \<and> mset res = {# VMap [(''name'', VStr ''a''), (''v'', VFloat64 1)],
                             VMap [(''name'', VStr ''b''), (''v'', VFloat64 3)],
                             VMap [(''name'', VStr ''c''), (''v'', VFloat64 4)] #}"
    unfolding example_merge by simp
  have l: "looksLikeArrayOfMaps exampleBase \<and> looksLikeArrayOfMaps exampleOverlay"
    by (simp add: exampleBase_def exampleOverlay_def)
  have "MergeMaps ro [(''files'', VSlice exampleBase)] [(''files'', VSlice exampleOverlay)]
          (Some [''files'' \<mapsto> ''name'']) =
        Some [(''files'', VSlice (map (\<lambda>(kv, m). VMap m) (ro ?ix)))]"
    using l by (simp add: MergeMaps.simps example_merge del: mergeArrayOfMapsByKey.simps)
  with e show "\<exists>res. MergeMaps ro [(''files'', VSlice exampleBase)] [(''files'', VSlice exampleOverlay)]
                    (Some [''files'' \<mapsto> ''name'']) = Some [(''files'', VSlice res)]
             \<and> mset res = {# VMap [(''name'', VStr ''a''), (''v'', VFloat64 1)],
                             VMap [(''name'', VStr ''b''), (''v'', VFloat64 3)],
                             VMap [(''name'', VStr ''c''), (''v'', VFloat64 4)] #}"
    by simp
next
  show "mergeArrayOfMapsByKey ro nestedBase nestedOverlay ''name'' cfg =
           Some [VMap [(''name'', VStr ''b''), (''v'', VFloat64 2),
                       (''meta'', VMap [(''x'', VFloat64 1), (''y'', VFloat64 3)])]]"
    using perm by (rule example_nested)
qed

theorem mergeArrayOfMapsByKey_keyed_witness:
  "distinct (map fst (keyedElems ''name'' exampleBase))
   \<and> distinct (map fst (keyedElems ''name'' exampleOverlay))
   \<and> list_all (keysScalar (isMergeKey (Some [''files'' \<mapsto> ''name''])))
         (exampleBase @ exampleOverlay)
   \<and> (\<exists>index res.
          mergeArrayOfMapsByKey rev exampleBase exampleOverlay ''name'' (Some [''files'' \<mapsto> ''name'']) = Some res
        \<and> mset res = image_mset (\<lambda>(kv, m). VMap m) (mset index)
        \<and> distinct (map fst index)
        \<and> (\<forall>kv. map_of index kv =
              (case map_of (keyedElems ''name'' exampleBase) kv of
                 None \<Rightarrow> map_of (keyedElems ''name'' exampleOverlay) kv
               | Some m1 \<Rightarrow>
                   (case map_of (keyedElems ''name'' exampleOverlay) kv of
                      None \<Rightarrow> Some m1
                    | Some m2 \<Rightarrow> MergeMaps rev m1 m2 (Some [''files'' \<mapsto> ''name''])))))
   \<and> (\<exists>r c. MergeMaps rev
                  [(''name'', VStr ''b''), (''v'', VFloat64 2),
                   (''meta'', VMap [(''x'', VFloat64 1), (''y'', VFloat64 2)])]
                  [(''name'', VStr ''b''), (''meta'', VMap [(''y'', VFloat64 3)])]
                  (Some [''files'' \<mapsto> ''name'']) = Some r
            \<and> MergeMaps rev [(''x'', VFloat64 1), (''y'', VFloat64 2)] [(''y'', VFloat64 3)]
                  (Some [''files'' \<mapsto> ''name'']) = Some c
            \<and> map_of r ''meta'' = Some (VMap c)
            \<and> map_of r ''v'' = Some (VFloat64 2)
            \<and> map_of r ''name'' = Some (VStr ''b''))"
proof -
  let ?cfg = "Some [''files'' \<mapsto> ''name'']"
  let ?m1 = "[(''name'', VStr ''b''), (''v'', VFloat64 2),
              (''meta'', VMap [(''x'', VFloat64 1), (''y'', VFloat64 2)])]"
  let ?m2 = "[(''name'', VStr ''b''), (''meta'', VMap [(''y'', VFloat64 3)])]"
  have p: "\<forall>ix :: index. mset (rev ix) = mset ix" by simp
  have d1: "distinct (map fst (keyedElems ''name'' exampleBase))"
    by (simp add: exampleBase_def)
  have d2: "distinct (map fst (keyedElems ''name'' exampleOverlay))"
    by (simp add: exampleOverlay_def)
  have h: "\<forall>(kv, m) \<in> set (keyedElems ''name'' exampleBase @ keyedElems ''name'' exampleOverlay).
             hashable kv"
    by (simp add: exampleBase_def exampleOverlay_def)
  have ks: "\<forall>x \<in> set (exampleBase @ exampleOverlay). keysScalar (isMergeKey ?cfg) x"
    by (simp add: exampleBase_def exampleOverlay_def isMergeKey_def)
  note keyed = mergeArrayOfMapsByKey_keyed [OF p d1 d2 h ks]
  obtain r where r: "MergeMaps rev ?m1 ?m2 ?cfg = Some r"
    by (simp add: MergeMaps.simps)
  have dm: "distinct (map fst ?m2)" by simp
  from keyed have fields:
      "(\<forall>f. map_of ?m2 f = None \<longrightarrow> map_of r f = map_of ?m1 f)
     \<and> (\<forall>f v2. map_of ?m2 f = Some v2 \<longrightarrow> \<not> isMap v2 \<longrightarrow> \<not> isSlice v2 \<longrightarrow> map_of r f = Some v2)
     \<and> (\<forall>f a b. map_of ?m1 f = Some (VMap a) \<longrightarrow> map_of ?m2 f = Some (VMap b) \<longrightarrow>
            (\<exists>c. MergeMaps rev a b ?cfg = Some c \<and> map_of r f = Some (VMap c)))"
    using r dm by blast
  from fields have v: "map_of r ''v'' = Some (VFloat64 2)" by simp
  from fields have "map_of ?m2 ''name'' = Some (VStr ''b'') \<longrightarrow> \<not> isMap (VStr ''b'') \<longrightarrow>
      \<not> isSlice (VStr ''b'') \<longrightarrow> map_of r ''name'' = Some (VStr ''b'')" by blast
  then have n: "map_of r ''name'' = Some (VStr ''b'')" by simp
  from fields have "map_of ?m1 ''meta'' = Some (VMap [(''x'', VFloat64 1), (''y'', VFloat64 2)]) \<longrightarrow>
      map_of ?m2 ''meta'' = Some (VMap [(''y'', VFloat64 3)]) \<longrightarrow>
      (\<exists>c. MergeMaps rev [(''x'', VFloat64 1), (''y'', VFloat64 2)] [(''y'', VFloat64 3)] ?cfg = Some c
           \<and> map_of r ''meta'' = Some (VMap c))" by blast
  then obtain c where
    c: "MergeMaps rev [(''x'', VFloat64 1), (''y'', VFloat64 2)] [(''y'', VFloat64 3)] ?cfg = Some c"
       "map_of r ''meta'' = Some (VMap c)" by auto
  have nested: "\<exists>r c. MergeMaps rev ?m1 ?m2 ?cfg = Some r
            \<and> MergeMaps rev [(''x'', VFloat64 1), (''y'', VFloat64 2)] [(''y'', VFloat64 3)] ?cfg = Some c
            \<and> map_of r ''meta'' = Some (VMap c)
            \<and> map_of r ''v'' = Some (VFloat64 2)
            \<and> map_of r ''name'' = Some (VStr ''b'')"
    using r c v n by blast
  have ks': "list_all (keysScalar (isMergeKey ?cfg)) (exampleBase @ exampleOverlay)"
    using ks by (simp only: list_all_iff)
  show ?thesis
    by (intro conjI; (rule d1 | rule d2 | rule ks' | rule keyed [THEN conjunct1] | rule nested))
qed

text \<open>
  The claim as the specification words it fails: an element that only the base has,
  but that lacks the key, is not preserved.
\<close>

theorem mergeArrayOfMapsByKey_drops_unkeyed:
  "mergeArrayOfMapsByKey (\<lambda>ix. ix) [VMap [(''v'', VFloat64 1)]] [] ''name'' (Some [''files'' \<mapsto> ''name''])
     = Some []"
  by simp

text \<open>
  C6 (amended).  \<^verbatim>\<open>MergeMaps(D, {})\<close> returns \<open>D\<close> for every document and every
  configuration.  \<^verbatim>\<open>MergeMaps(D, D)\<close> returns \<open>D\<close> for a well-formed document when no
  keyed-array rule applies to an array in it; this is so for every document under the
  empty configuration, the one the upload passes.
\<close>

theorem MergeMaps_idempotent:
  "MergeMaps ro D [] cfg = Some D
   \<and> (wellformed (VMap D) \<longrightarrow> (\<forall>(k, v) \<in> set D. unkeyed cfg k v) \<longrightarrow> MergeMaps ro D D cfg = Some D)
   \<and> (wellformed (VMap D) \<longrightarrow> MergeMaps ro D D (Some Map.empty) = Some D)"
proof -
  have self: "MergeMaps ro D D c = Some D"
    if w: "wellformed (VMap D)" and u: "\<forall>(k, v) \<in> set D. unkeyed c k v" for c
  proof -
    have "unkeyed c [] (VMap D)" using u by simp
    with w have "MergeMaps_switch ro [] (Some (VMap D)) (VMap D) c = Some (VMap D)"
      by (rule MergeMaps_switch_self)
    then show ?thesis by (simp split: option.splits)
  qed
  have "MergeMaps ro D [] cfg = Some D" by (simp add: MergeMaps.simps)
  moreover have "wellformed (VMap D) \<longrightarrow> MergeMaps ro D D (Some Map.empty) = Some D"
    using self [of "Some Map.empty"] unkeyed_empty_config by blast
  ultimately show ?thesis using self [of cfg] by blast
qed

theorem MergeMaps_idempotent_witness:
  "wellformed (VMap [(''state'', VStr ''READY''), (''meta'', VMap [(''n'', VFloat64 1)]),
                     (''tags'', VSlice [VMap [(''x'', VFloat64 1)]])])
   \<and> MergeMaps rev [(''state'', VStr ''READY''), (''meta'', VMap [(''n'', VFloat64 1)]),
                     (''tags'', VSlice [VMap [(''x'', VFloat64 1)]])] [] (Some [''files'' \<mapsto> ''name''])
       = Some [(''state'', VStr ''READY''), (''meta'', VMap [(''n'', VFloat64 1)]),
               (''tags'', VSlice [VMap [(''x'', VFloat64 1)]])]
   \<and> MergeMaps rev [(''state'', VStr ''READY''), (''meta'', VMap [(''n'', VFloat64 1)]),
                     (''tags'', VSlice [VMap [(''x'', VFloat64 1)]])]
                    [(''state'', VStr ''READY''), (''meta'', VMap [(''n'', VFloat64 1)]),
                     (''tags'', VSlice [VMap [(''x'', VFloat64 1)]])] (Some [''files'' \<mapsto> ''name''])
       = Some [(''state'', VStr ''READY''), (''meta'', VMap [(''n'', VFloat64 1)]),
               (''tags'', VSlice [VMap [(''x'', VFloat64 1)]])]"
  using MergeMaps_idempotent [of rev "[(''state'', VStr ''READY''), (''meta'', VMap [(''n'', VFloat64 1)]),
                     (''tags'', VSlice [VMap [(''x'', VFloat64 1)]])]" "Some [''files'' \<mapsto> ''name'']"]
  by simp

text \<open>
  The claim as the specification words it fails under a keyed-array rule: the array is
  rebuilt from the index, and an element without the key is not in the index.
\<close>

theorem MergeMaps_self_drops_unkeyed:
  "MergeMaps (\<lambda>ix. ix) [(''files'', VSlice [VMap [(''x'', VFloat64 1)]])]
      [(''files'', VSlice [VMap [(''x'', VFloat64 1)]])] (Some [''files'' \<mapsto> ''name''])
     = Some [(''files'', VSlice [])]
   \<and> MergeMaps (\<lambda>ix. ix) [(''files'', VSlice [VMap [(''x'', VFloat64 1)]])]
      [(''files'', VSlice [VMap [(''x'', VFloat64 1)]])] (Some [''files'' \<mapsto> ''name''])
     \<noteq> Some [(''files'', VSlice [VMap [(''x'', VFloat64 1)]])]"
  by (simp add: MergeMaps.simps)

section \<open>Properties of the progress aggregator\<close>

lemma render_unthrottled:
  assumes "totalKnown gp" and "0 < totalBytes gp"
      and "force \<or> 100 * Millisecond \<le> time_Sub nowSince (lastTick gp)"
  shows "render force nowSince nowTick gp =
           Some (gp\<lparr>lastTick := nowTick, doneBytes := min (doneBytes gp) (totalBytes gp)\<rparr>,
                 Some (PercentLine
                        (if totalBytes gp < doneBytes gp then 100
                         else of_int (doneBytes gp) / of_int (totalBytes gp) * 100)
                        (min (doneBytes gp) (totalBytes gp)) (totalBytes gp)))"
  using assms by (auto simp: render_def Let_def min_def)

lemma foldl_add_total: "totalKnown (foldl add gp ds) = totalKnown gp \<and> totalBytes (foldl add gp ds) = totalBytes gp"
  by (induction ds arbitrary: gp) (simp_all add: add_def)

text \<open>
  C7 (amended).  With a known total of 100, after \<^verbatim>\<open>add(30)\<close> and \<^verbatim>\<open>add(70)\<close> a render
  that is forced, or comes at least 100 ms after the last one, reports 100%.  \<^verbatim>\<open>add\<close>
  itself only increments the counter (wrapping as an \<^verbatim>\<open>int64\<close>).  The clamp is in
  \<^verbatim>\<open>render\<close>: a render that is not suppressed, with a known positive total, leaves the
  counter at the smaller of counter and total, and reports 100% when the counter had
  reached the total.  So after any further \<^verbatim>\<open>add\<close> calls a forced render leaves the
  counter at no more than 100.
\<close>

theorem render_clamps:
  "(force \<or> 100 * Millisecond \<le> time_Sub nowSince (lastTick exampleProgress) \<longrightarrow>
      render force nowSince nowTick (add (add exampleProgress 30) 70) =
        Some (exampleProgress\<lparr>doneBytes := 100, lastTick := nowTick\<rparr>, Some (PercentLine 100 100 100)))
   \<and> doneBytes (add gp delta) = wrap64 (doneBytes gp + delta)
   \<and> (totalKnown gp \<and> 0 < totalBytes gp \<and> (force \<or> 100 * Millisecond \<le> time_Sub nowSince (lastTick gp)) \<longrightarrow>
        (\<exists>gp' pct. render force nowSince nowTick gp = Some (gp', Some (PercentLine pct (doneBytes gp') (totalBytes gp)))
            \<and> doneBytes gp' = min (doneBytes gp) (totalBytes gp)
            \<and> totalBytes gp' = totalBytes gp
            \<and> (totalBytes gp \<le> doneBytes gp \<longrightarrow> pct = 100)))
   \<and> (\<exists>gp' pct. render True nowSince nowTick (foldl add (add (add exampleProgress 30) 70) further) =
           Some (gp', Some (PercentLine pct (doneBytes gp') 100)) \<and> doneBytes gp' \<le> 100)"
proof (intro conjI impI)
  assume a: "force \<or> 100 * Millisecond \<le> time_Sub nowSince (lastTick exampleProgress)"
  have e: "add (add exampleProgress 30) 70 = exampleProgress\<lparr>doneBytes := 100\<rparr>"
    by (simp add: add_def exampleProgress_def wrap64_def)
  show "render force nowSince nowTick (add (add exampleProgress 30) 70) =
        Some (exampleProgress\<lparr>doneBytes := 100, lastTick := nowTick\<rparr>, Some (PercentLine 100 100 100))"
    using a unfolding e by (auto simp: render_def exampleProgress_def Let_def)
next
  show "doneBytes (add gp delta) = wrap64 (doneBytes gp + delta)" by (simp add: add_def)
next
  assume a: "totalKnown gp \<and> 0 < totalBytes gp \<and> (force \<or> 100 * Millisecond \<le> time_Sub nowSince (lastTick gp))"
  then have r: "render force nowSince nowTick gp =
           Some (gp\<lparr>lastTick := nowTick, doneBytes := min (doneBytes gp) (totalBytes gp)\<rparr>,
                 Some (PercentLine
                        (if totalBytes gp < doneBytes gp then 100
                         else of_int (doneBytes gp) / of_int (totalBytes gp) * 100)
                        (min (doneBytes gp) (totalBytes gp)) (totalBytes gp)))"
    by (intro render_unthrottled) auto
  have "totalBytes gp \<le> doneBytes gp \<longrightarrow>
          (if totalBytes gp < doneBytes gp then 100
           else of_int (doneBytes gp) / of_int (totalBytes gp) * 100) = (100 :: rat)"
    using a by auto
  then show "\<exists>gp' pct. render force nowSince nowTick gp = Some (gp', Some (PercentLine pct (doneBytes gp') (totalBytes gp)))
            \<and> doneBytes gp' = min (doneBytes gp) (totalBytes gp)
            \<and> totalBytes gp' = totalBytes gp
            \<and> (totalBytes gp \<le> doneBytes gp \<longrightarrow> pct = 100)"
    unfolding r by simp
next
  let ?gp = "foldl add (add (add exampleProgress 30) 70) further"
  have t: "totalKnown ?gp" "totalBytes ?gp = 100"
    using foldl_add_total [of "add (add exampleProgress 30) 70" further]
    by (simp_all add: add_def exampleProgress_def)
  have r: "render True nowSince nowTick ?gp =
           Some (?gp\<lparr>lastTick := nowTick, doneBytes := min (doneBytes ?gp) (totalBytes ?gp)\<rparr>,
                 Some (PercentLine
                        (if totalBytes ?gp < doneBytes ?gp then 100
                         else of_int (doneBytes ?gp) / of_int (totalBytes ?gp) * 100)
                        (min (doneBytes ?gp) (totalBytes ?gp)) (totalBytes ?gp)))"
    using t by (intro render_unthrottled) auto
  show "\<exists>gp' pct. render True nowSince nowTick ?gp =
           Some (gp', Some (PercentLine pct (doneBytes gp') 100)) \<and> doneBytes gp' \<le> 100"
    unfolding r using t by simp
qed

theorem render_clamps_witness:
  "render False 63900000000000000000 63900000000000000001 (add (add exampleProgress 30) 70) =
     Some (exampleProgress\<lparr>doneBytes := 100, lastTick := 63900000000000000001\<rparr>, Some (PercentLine 100 100 100))
   \<and> (\<exists>gp' pct. render True 7 8 (add exampleProgress 250) = Some (gp', Some (PercentLine pct (doneBytes gp') 100))
         \<and> doneBytes gp' = min (doneBytes (add exampleProgress 250)) 100 \<and> pct = 100)"
proof -
  have a: "False \<or> 100 * Millisecond \<le> time_Sub 63900000000000000000 (lastTick exampleProgress)"
    by (simp add: Millisecond_def time_Sub_def exampleProgress_def maxDuration_def minDuration_def)
  have b: "totalKnown (add exampleProgress 250) \<and> 0 < totalBytes (add exampleProgress 250)
           \<and> (True \<or> 100 * Millisecond \<le> time_Sub 7 (lastTick (add exampleProgress 250)))"
    by (simp add: add_def exampleProgress_def)
  have c: "totalBytes (add exampleProgress 250) = 100" "totalBytes (add exampleProgress 250) \<le> doneBytes (add exampleProgress 250)"
    by (simp_all add: add_def exampleProgress_def wrap64_def)
  show ?thesis
    using render_clamps [of False 63900000000000000000 63900000000000000001 "add exampleProgress 250" 0 "[]"]
          render_clamps [of True 7 8 "add exampleProgress 250" 0 "[]"] a b c
    by auto
qed

text \<open>
  The claim as the specification words it fails: between an \<^verbatim>\<open>add\<close> and the next
  render that is not suppressed, the counter is above the total.
\<close>

theorem add_overshoots:
  "totalBytes (add (add (add exampleProgress 30) 70) 1) = 100
   \<and> doneBytes (add (add (add exampleProgress 30) 70) 1) = 101"
  by (simp add: add_def exampleProgress_def wrap64_def)

section \<open>Properties of the progress writer\<close>

lemma Write_unfold:
  assumes "pw_onProgress pw = Some f"
  shows "Write n now pw s =
      (if wrap64 (pw_written pw + int n) = pw_total pw \<or> pw_interval pw \<le> time_Sub now (pw_lastEmit pw)
       then (int n, pw\<lparr>pw_written := wrap64 (pw_written pw + int n), pw_lastEmit := now\<rparr>,
             f (pw_key pw) (wrap64 (pw_written pw + int n)) (pw_total pw) s)
       else (int n, pw\<lparr>pw_written := wrap64 (pw_written pw + int n)\<rparr>, s))"
  using assms by (simp add: Write_def Let_def)

lemma teeWrites_reported:
  assumes "pw_onProgress pw = Some f" and "pw_interval pw = 250 * Millisecond"
  shows "snd (teeWrites ws pw s) =
           foldl (\<lambda>s w. f (pw_key pw) w (pw_total pw) s) s
             (reported (pw_total pw) (pw_written pw) (pw_lastEmit pw) ws)"
  using assms
proof (induction ws arbitrary: pw s)
  case Nil
  then show ?case by simp
next
  case (Cons x ws)
  obtain n now where x: "x = (n, now)" by (cases x)
  let ?w = "wrap64 (pw_written pw + int n)"
  show ?case
  proof (cases "?w = pw_total pw \<or> 250 * Millisecond \<le> time_Sub now (pw_lastEmit pw)")
    case True
    let ?pw = "pw\<lparr>pw_written := ?w, pw_lastEmit := now\<rparr>"
    have w: "Write n now pw s = (int n, ?pw, f (pw_key pw) ?w (pw_total pw) s)"
      using Write_unfold [OF Cons.prems(1)] True Cons.prems(2) by simp
    have "snd (teeWrites ws ?pw (f (pw_key pw) ?w (pw_total pw) s)) =
            foldl (\<lambda>s w. f (pw_key ?pw) w (pw_total ?pw) s) (f (pw_key pw) ?w (pw_total pw) s)
              (reported (pw_total ?pw) (pw_written ?pw) (pw_lastEmit ?pw) ws)"
      by (rule Cons.IH) (use Cons.prems in simp_all)
    then show ?thesis using x w True by simp
  next
    case False
    let ?pw = "pw\<lparr>pw_written := ?w\<rparr>"
    have w: "Write n now pw s = (int n, ?pw, s)"
      using Write_unfold [OF Cons.prems(1)] False Cons.prems(2) by simp
    have "snd (teeWrites ws ?pw s) =
            foldl (\<lambda>s w. f (pw_key ?pw) w (pw_total ?pw) s) s
              (reported (pw_total ?pw) (pw_written ?pw) (pw_lastEmit ?pw) ws)"
      by (rule Cons.IH) (use Cons.prems in simp_all)
    then show ?thesis using x w False by simp
  qed
qed

lemma reported_subseq: "subseq (reported tot w l ws) (cumulative w (map fst ws))"
proof (induction ws arbitrary: w l)
  case Nil
  then show ?case by simp
next
  case (Cons x ws)
  obtain n now where x: "x = (n, now)" by (cases x)
  show ?case using x Cons.IH by auto
qed

lemma reported_total:
  "tot \<in> set (cumulative w (map fst ws)) \<Longrightarrow> tot \<in> set (reported tot w l ws)"
proof (induction ws arbitrary: w l)
  case Nil
  then show ?case by simp
next
  case (Cons x ws)
  obtain n now where x: "x = (n, now)" by (cases x)
  show ?case using x Cons by auto
qed

text \<open>
  C9 (amended).  A \<^verbatim>\<open>Write\<close> of the progress writer adds the length it was given to the
  bytes written and calls \<^verbatim>\<open>onProgress\<close>, with the cumulative bytes written so far, only
  when the bytes written have reached the total or at least the interval has passed
  since the last call it made; when it calls, the time of this \<^verbatim>\<open>Write\<close> becomes the
  time of the last call, and otherwise nothing but the count changes.  A put and a get
  with a hook run every read of the body through such a writer, with an interval of
  250 ms and no call made yet: the calls of \<^verbatim>\<open>OnProgress\<close> are, in order, the counts that
  the throttling rule reports (after \<^verbatim>\<open>OnStart\<close>, and before \<^verbatim>\<open>OnDone\<close> where that is
  called).  These are a subsequence of the cumulative counts of the writes, and a
  write that brings the count to the total is always among them.
\<close>

theorem Write_emits:
  "(pw_onProgress pw = Some f \<longrightarrow>
      Write n now pw s =
        (if wrap64 (pw_written pw + int n) = pw_total pw
            \<or> pw_interval pw \<le> time_Sub now (pw_lastEmit pw)
         then (int n, pw\<lparr>pw_written := wrap64 (pw_written pw + int n), pw_lastEmit := now\<rparr>,
               f (pw_key pw) (wrap64 (pw_written pw + int n)) (pw_total pw) s)
         else (int n, pw\<lparr>pw_written := wrap64 (pw_written pw + int n)\<rparr>, s)))
   \<and> (file_Stat E h file = Inr info \<longrightarrow>
      file_Seek E (h @ [FileStat file]) file = None \<longrightarrow>
      file_Seek E (h @ [FileStat file, FileSeek file]) file = None \<longrightarrow>
      ph_OnProgress hk = Some f \<longrightarrow>
      (\<exists>took. snd (UploadFileWithProgress E h bucket key file (Some hk) s) =
         callOnDone (Some hk) key (fi_Size info) took
           (foldl (\<lambda>s w. f key w (fi_Size info) s) (callOnStart (Some hk) key (fi_Size info) s)
              (reported (fi_Size info) 0 0
                 (body_Reads E (h @ [FileStat file, FileSeek file, FileSeek file]) file)))))
   \<and> (s3_GetObject E h bucket key = Inr contentLength \<longrightarrow>
      os_Create E (h @ [S3GetObject bucket key]) localPath = None \<longrightarrow>
      ph_OnProgress hk = Some f \<longrightarrow>
      (\<exists>took. snd (DownloadFileWithProgress E h bucket key localPath (Some hk) s) =
         (if io_Copy E (h @ [S3GetObject bucket key, OsCreate localPath]) localPath = None
          then callOnDone (Some hk) key (ToInt64 contentLength) took else (\<lambda>s. s))
           (foldl (\<lambda>s w. f key w (ToInt64 contentLength) s)
              (callOnStart (Some hk) key (ToInt64 contentLength) s)
              (reported (ToInt64 contentLength) 0 0
                 (body_Reads E (h @ [S3GetObject bucket key, OsCreate localPath]) localPath)))))
   \<and> subseq (reported tot 0 0 ws) (cumulative 0 (map fst ws))
   \<and> (tot \<in> set (cumulative 0 (map fst ws)) \<longrightarrow> tot \<in> set (reported tot 0 0 ws))"
proof (intro conjI impI)
  assume "pw_onProgress pw = Some f"
  then show "Write n now pw s =
        (if wrap64 (pw_written pw + int n) = pw_total pw
            \<or> pw_interval pw \<le> time_Sub now (pw_lastEmit pw)
         then (int n, pw\<lparr>pw_written := wrap64 (pw_written pw + int n), pw_lastEmit := now\<rparr>,
               f (pw_key pw) (wrap64 (pw_written pw + int n)) (pw_total pw) s)
         else (int n, pw\<lparr>pw_written := wrap64 (pw_written pw + int n)\<rparr>, s))"
    by (rule Write_unfold)
next
  assume st: "file_Stat E h file = Inr info"
     and s1: "file_Seek E (h @ [FileStat file]) file = None"
     and s2: "file_Seek E (h @ [FileStat file, FileSeek file]) file = None"
     and f: "ph_OnProgress hk = Some f"
  let ?h3 = "h @ [FileStat file, FileSeek file, FileSeek file]"
  let ?pw = "newProgressWriter key (fi_Size info) (hookOnProgress (Some hk))"
  let ?s1 = "callOnStart (Some hk) key (fi_Size info) s"
  have pw: "pw_onProgress ?pw = Some f" "pw_interval ?pw = 250 * Millisecond"
    using f by (simp_all add: newProgressWriter_def hookOnProgress_def)
  have t: "snd (teeWrites (body_Reads E ?h3 file) ?pw ?s1) =
             foldl (\<lambda>s w. f key w (fi_Size info) s) ?s1
               (reported (fi_Size info) 0 0 (body_Reads E ?h3 file))"
    using teeWrites_reported [OF pw, of "body_Reads E ?h3 file" ?s1]
    by (simp add: newProgressWriter_def)
  have "snd (UploadFileWithProgress E h bucket key file (Some hk) s) =
          callOnDone (Some hk) key (fi_Size info)
            (time_Sub (time_Now E (?h3 @ [if fi_Size info > threshold
                                          then S3MultipartUpload bucket key file
                                          else S3PutObject bucket key file])) (time_Now E ?h3))
            (snd (teeWrites (body_Reads E ?h3 file) ?pw ?s1))"
    using st s1 s2 by (simp add: UploadFileWithProgress_def Let_def)
  with t show "\<exists>took. snd (UploadFileWithProgress E h bucket key file (Some hk) s) =
         callOnDone (Some hk) key (fi_Size info) took
           (foldl (\<lambda>s w. f key w (fi_Size info) s) (callOnStart (Some hk) key (fi_Size info) s)
              (reported (fi_Size info) 0 0
                 (body_Reads E (h @ [FileStat file, FileSeek file, FileSeek file]) file)))"
    by auto
next
  assume g: "s3_GetObject E h bucket key = Inr contentLength"
     and c: "os_Create E (h @ [S3GetObject bucket key]) localPath = None"
     and f: "ph_OnProgress hk = Some f"
  let ?h2 = "h @ [S3GetObject bucket key, OsCreate localPath]"
  let ?tot = "ToInt64 contentLength"
  let ?pw = "newProgressWriter key ?tot (hookOnProgress (Some hk))"
  let ?s1 = "callOnStart (Some hk) key ?tot s"
  have pw: "pw_onProgress ?pw = Some f" "pw_interval ?pw = 250 * Millisecond"
    using f by (simp_all add: newProgressWriter_def hookOnProgress_def)
  have t: "snd (teeWrites (body_Reads E ?h2 localPath) ?pw ?s1) =
             foldl (\<lambda>s w. f key w ?tot s) ?s1 (reported ?tot 0 0 (body_Reads E ?h2 localPath))"
    using teeWrites_reported [OF pw, of "body_Reads E ?h2 localPath" ?s1]
    by (simp add: newProgressWriter_def)
  have "snd (DownloadFileWithProgress E h bucket key localPath (Some hk) s) =
          (if io_Copy E ?h2 localPath = None
           then callOnDone (Some hk) key ?tot
                  (time_Sub (time_Now E (?h2 @ [IoCopy localPath])) (time_Now E ?h2))
           else (\<lambda>s. s))
            (snd (teeWrites (body_Reads E ?h2 localPath) ?pw ?s1))"
    using g c by (auto simp: DownloadFileWithProgress_def Let_def split: option.splits)
  with t show "\<exists>took. snd (DownloadFileWithProgress E h bucket key localPath (Some hk) s) =
         (if io_Copy E (h @ [S3GetObject bucket key, OsCreate localPath]) localPath = None
          then callOnDone (Some hk) key (ToInt64 contentLength) took else (\<lambda>s. s))
           (foldl (\<lambda>s w. f key w (ToInt64 contentLength) s)
              (callOnStart (Some hk) key (ToInt64 contentLength) s)
              (reported (ToInt64 contentLength) 0 0
                 (body_Reads E (h @ [S3GetObject bucket key, OsCreate localPath]) localPath)))"
    by auto
next
  show "subseq (reported tot 0 0 ws) (cumulative 0 (map fst ws))" by (rule reported_subseq)
next
  assume "tot \<in> set (cumulative 0 (map fst ws))"
  then show "tot \<in> set (reported tot 0 0 ws)" by (rule reported_total)
qed

theorem Write_emits_witness:
  "snd (DownloadFileWithProgress progressEnv [] ''bkt'' ''k'' ''k.bin'' (Some recordingHook) [])
     = [(''k'', 4, 10), (''k'', 10, 10)]"
proof -
  have g: "s3_GetObject progressEnv [] ''bkt'' ''k'' = Inr (Some 10)"
    by (simp add: progressEnv_def idleEnv_def)
  have c: "os_Create progressEnv ([] @ [S3GetObject ''bkt'' ''k'']) ''k.bin'' = None"
    by (simp add: progressEnv_def idleEnv_def)
  have f: "ph_OnProgress recordingHook = Some recordProgress"
    by (simp add: recordingHook_def)
  have r: "reported 10 0 0
             (body_Reads progressEnv ([] @ [S3GetObject ''bkt'' ''k'', OsCreate ''k.bin'']) ''k.bin'')
           = [4, 10]"
    by (simp add: progressEnv_def idleEnv_def wrap64_def time_Sub_def maxDuration_def
          minDuration_def Millisecond_def)
  from Write_emits [of "newProgressWriter ''k'' 10 None" recordProgress 0 0 "[]" progressEnv "[]"
                      "''k.bin''" "\<lparr>fi_Name = ''k.bin'', fi_IsDir = False, fi_Size = 10, fi_ModTime = 5\<rparr>" recordingHook "''bkt''" "''k''" "Some 10" "''k.bin''" 10 "[]"]
       g c f
  obtain took where
    "snd (DownloadFileWithProgress progressEnv [] ''bkt'' ''k'' ''k.bin'' (Some recordingHook) []) =
         (if io_Copy progressEnv ([] @ [S3GetObject ''bkt'' ''k'', OsCreate ''k.bin'']) ''k.bin'' = None
          then callOnDone (Some recordingHook) ''k'' (ToInt64 (Some 10)) took else (\<lambda>s. s))
           (foldl (\<lambda>s w. recordProgress ''k'' w (ToInt64 (Some 10)) s)
              (callOnStart (Some recordingHook) ''k'' (ToInt64 (Some 10)) [])
              (reported (ToInt64 (Some 10)) 0 0
                 (body_Reads progressEnv ([] @ [S3GetObject ''bkt'' ''k'', OsCreate ''k.bin'']) ''k.bin'')))"
    by blast
  then show ?thesis
    using r by (simp add: ToInt64_def callOnDone_def callOnStart_def recordingHook_def recordProgress_def)
qed

text \<open>
  The claim as the specification words it fails: of the three writes of a put of ten
  bytes, one millisecond apart, the second (7 bytes written so far) is not reported.
\<close>

theorem Write_suppressed:
  "snd (UploadFileWithProgress progressEnv [] ''bkt'' ''k'' ''data.bin'' (Some recordingHook) [])
     = [(''k'', 4, 10), (''k'', 10, 10)]
   \<and> map (\<lambda>w. (''k'', w, 10 :: int)) (cumulative 0 (map fst (body_Reads progressEnv [] ''data.bin'')))
     = [(''k'', 4, 10), (''k'', 7, 10), (''k'', 10, 10)]"
  by (simp add: UploadFileWithProgress_def progressEnv_def idleEnv_def recordingHook_def
        callOnStart_def callOnDone_def hookOnProgress_def threshold_def
        newProgressWriter_def Write_def Let_def recordProgress_def wrap64_def
        time_Sub_def maxDuration_def minDuration_def Millisecond_def)

section \<open>Properties of the listing\<close>

lemma WalkPrefix_page_placeholders:
  assumes "\<forall>obj. obj_Key obj \<noteq> None \<and> \<not> isPlaceholder obj \<longrightarrow> fn obj = fn' obj"
  shows "WalkPrefix_page fn objs h c = WalkPrefix_page fn' objs h c"
  using assms
  by (induction fn objs h c rule: WalkPrefix_page.induct) (auto split: prod.splits option.splits)

lemma WalkPrefix_placeholders:
  assumes "\<forall>obj. obj_Key obj \<noteq> None \<and> \<not> isPlaceholder obj \<longrightarrow> fn obj = fn' obj"
  shows "WalkPrefix_loop fuel E fn bucket pfx pageSize token h c =
         WalkPrefix_loop fuel E fn' bucket pfx pageSize token h c"
  using assms
proof (induction fuel arbitrary: token h c)
  case 0
  then show ?case by simp
next
  case (Suc fuel)
  have p: "WalkPrefix_page fn objs h' c' = WalkPrefix_page fn' objs h' c'" for objs h' c'
    using Suc.prems by (rule WalkPrefix_page_placeholders)
  show ?case
    using Suc.IH [OF Suc.prems] by (auto simp: p split: sum.splits prod.splits option.splits)
qed

text \<open>
  C8.  On a page that holds the zero-byte placeholder \<^verbatim>\<open>data/\<close> and one object,
  \<^verbatim>\<open>ListFilesPaged\<close> under the prefix \<^verbatim>\<open>data/\<close> delivers both entries, the placeholder
  with an empty name, while \<^verbatim>\<open>WalkPrefix\<close> hands only the object to its callback.
\<close>

theorem ListFilesPaged_keeps_placeholder:
  "ListFilesPaged listingEnv [] ''bkt'' ''data/'' (Some 1000) None =
     Some (Inr ([\<lparr>sf_Path = ''data/'', sf_Name = [], sf_Size = 0, sf_LastModified = []\<rparr>,
                 \<lparr>sf_Path = ''data/a.txt'', sf_Name = ''a.txt'', sf_Size = 3, sf_LastModified = []\<rparr>],
                None),
           [S3ListObjectsV2 ''bkt'' ''data/'' None])
   \<and> WalkPrefix 1 listingEnv recordObject ''bkt'' ''data/'' 1000 [] [] =
     Some (None, [S3ListObjectsV2 ''bkt'' ''data/'' None], [payloadObject])"
  by (simp add: ListFilesPaged_def WalkPrefix_def listingEnv_def idleEnv_def placeholderObject_def
        payloadObject_def recordObject_def isPlaceholder_def ToString_def ToInt64_def
        HasPrefix_def HasSuffix_def TrimPrefix_def Let_def)

section \<open>Properties of the upload\<close>

text \<open>What a put returns does not depend on the hook.\<close>

lemma UploadFileWithProgress_result:
  "fst (UploadFileWithProgress E h bucket key file hook s) =
     (case file_Stat E h file of
        Inl err \<Rightarrow> (Some (ErrWrap ''stat error'' err), h @ [FileStat file])
      | Inr info \<Rightarrow>
          (case file_Seek E (h @ [FileStat file]) file of
             Some err \<Rightarrow> (Some (ErrWrap ''seek error'' err), h @ [FileStat file, FileSeek file])
           | None \<Rightarrow>
               (case file_Seek E (h @ [FileStat file, FileSeek file]) file of
                  Some err \<Rightarrow>
                    (Some (ErrWrap ''rewind error'' err), h @ [FileStat file, FileSeek file, FileSeek file])
                | None \<Rightarrow>
                    if fi_Size info > threshold
                    then (s3_MultipartUpload E (h @ [FileStat file, FileSeek file, FileSeek file]) bucket key file,
                          h @ [FileStat file, FileSeek file, FileSeek file, S3MultipartUpload bucket key file])
                    else (s3_PutObject E (h @ [FileStat file, FileSeek file, FileSeek file]) bucket key file,
                          h @ [FileStat file, FileSeek file, FileSeek file, S3PutObject bucket key file]))))"
  by (simp add: UploadFileWithProgress_def Let_def split: sum.splits option.splits)

lemmas upload_example_defs =
  uploadEnv_def idleEnv_def existingRequest_def noGlobals_def createdArtifact_def statePayload_def
  stateOf_def RunId_def readyEnv_def statusFailsEnv_def putFailsEnv_def

lemmas directory_example_defs =
  directoryEnv_def directoryRequest_def annotatedArtifact_def statusPayload_def directoryTrace_def
  TimeFormat_def

lemmas upload_defs =
  Upload_def Upload_fetch_def getRunKey_def Upload_check_def updateStatus_def Upload_transfer_def
  UploadS3File_def UploadFileWithProgress_result MergeMaps.simps HasSuffix_def threshold_def
  fileDescriptor_def Let_def

lemma MergeMaps_switch_empty_config:
  "\<exists>v. MergeMaps_switch ro k v1 v2 (Some Map.empty) = Some v"
proof (induction v2 arbitrary: k v1 rule: measure_induct_rule [of size])
  case (less v2)
  have range: "\<exists>r. MergeMaps_range ro result xs (Some Map.empty) = Some r"
    if "\<And>k v. (k, v) \<in> set xs \<Longrightarrow> size v < size v2" for result xs
    using that
  proof (induction xs arbitrary: result)
    case Nil
    then show ?case by simp
  next
    case (Cons x xs)
    obtain k' v' where x: "x = (k', v')" by (cases x)
    have "size v' < size v2" using Cons.prems [of k' v'] x by simp
    then obtain nv where nv: "MergeMaps_switch ro k' (map_of result k') v' (Some Map.empty) = Some nv"
      using less.IH by blast
    have "\<exists>r. MergeMaps_range ro (AList.update k' nv result) xs (Some Map.empty) = Some r"
    proof (rule Cons.IH)
      fix k v assume "(k, v) \<in> set xs"
      then show "size v < size v2" using Cons.prems [of k v] by simp
    qed
    then show ?case using x nv by simp
  qed
  show ?case
  proof (cases v2)
    case (VMap m2)
    show ?thesis
    proof (cases v1)
      case None
      then show ?thesis using VMap by simp
    next
      case (Some w)
      show ?thesis
      proof (cases w)
        case (VMap m1)
        have "\<exists>r. MergeMaps_range ro m1 m2 (Some Map.empty) = Some r"
        proof (rule range)
          fix k v assume "(k, v) \<in> set m2"
          then show "size v < size v2" using \<open>v2 = VMap m2\<close> size_field by fastforce
        qed
        then show ?thesis using \<open>v2 = VMap m2\<close> Some VMap by (auto simp: MergeMaps.simps)
      qed (use \<open>v2 = VMap m2\<close> Some in simp_all)
    qed
  next
    case (VSlice arr2)
    then show ?thesis by (cases v1; cases "the v1") simp_all
  qed simp_all
qed

lemma MergeMaps_empty_config:
  "\<exists>r. MergeMaps ro m1 m2 (Some Map.empty) = Some r"
  using MergeMaps_switch_empty_config [of ro "[]" "Some (VMap m1)" "VMap m2"]
  by (auto split: option.splits)

lemma MergeMaps_state:
  assumes "MergeMaps ro existing [(''state'', VStr s)] cfg = Some merged"
  shows "map_of merged ''state'' = Some (VStr s)"
proof -
  have "MergeMaps_range ro existing [(''state'', VStr s)] cfg = Some merged"
    using assms by (simp add: MergeMaps.simps)
  then show ?thesis
    by (intro MergeMaps_range_overlay [of "[(''state'', VStr s)]" "''state''" "VStr s" ro existing cfg merged]) simp_all
qed

lemma updateStatus_returns:
  "\<exists>r artifact' h'. updateStatus E h req endpoint artifactID artifact key updateData = Some (r, artifact', h')"
proof -
  obtain merged where
    "MergeMaps (rangeOrder E) (case map_of artifact key of Some (VMap m) \<Rightarrow> m | _ \<Rightarrow> []) updateData (Some Map.empty) = Some merged"
    using MergeMaps_empty_config by blast
  then show ?thesis
    by (auto simp: updateStatus_def Let_def split: sum.splits)
qed

lemma getRunKey_trace:
  assumes "getRunKey E V h req = Some (r, h0)"
  shows "h0 = h \<or> (\<exists>url. h0 = h @ [HttpDo ''GET'' url None])"
  using assms
  by (auto simp: getRunKey_def Let_def split: if_splits option.splits sum.splits val.splits)

lemma Upload_fetch_existing:
  assumes "ur_ID req \<noteq> []" and "Upload_fetch E V h endpoint req = Some (r, h1)"
  shows "\<exists>t. h1 = h @ t \<and> (\<forall>e \<in> set t. \<exists>url. e = HttpDo ''GET'' url None)"
proof -
  have "h1 = h \<or> (\<exists>h0. (\<exists>r0. getRunKey E V h req = Some (r0, h0))
                    \<and> (h1 = h0 \<or> (\<exists>url. h1 = h0 @ [HttpDo ''GET'' url None])))"
    using assms
    by (auto simp: Upload_fetch_def Let_def split: if_splits option.splits sum.splits prod.splits)
  then show ?thesis
  proof
    assume "h1 = h"
    then show ?thesis by simp
  next
    assume "\<exists>h0. (\<exists>r0. getRunKey E V h req = Some (r0, h0))
                    \<and> (h1 = h0 \<or> (\<exists>url. h1 = h0 @ [HttpDo ''GET'' url None]))"
    then obtain h0 r0 where g: "getRunKey E V h req = Some (r0, h0)"
      and e: "h1 = h0 \<or> (\<exists>url. h1 = h0 @ [HttpDo ''GET'' url None])" by blast
    from getRunKey_trace [OF g] have "h0 = h \<or> (\<exists>url. h0 = h @ [HttpDo ''GET'' url None])" .
    with e show ?thesis by auto
  qed
qed

text \<open>
  C1.  For a request that names an existing artifact: if the artifact fetched has a
  \<^verbatim>\<open>status\<close> whose state is anything but \<^verbatim>\<open>CREATED\<close> (also a missing state or one that
  is not a string, which reads as the empty string), \<^verbatim>\<open>Upload\<close> returns the error
  ``artifact is not in CREATED state'' with a \<^verbatim>\<open>nil\<close> result, and every call it has made
  is a \<^verbatim>\<open>GET\<close>: no \<^verbatim>\<open>PUT\<close>, no \<^verbatim>\<open>POST\<close> and no put to the object store.
\<close>

theorem Upload_rejects_state:
  assumes "ur_ID req \<noteq> []"
      and "Upload_fetch E V h endpoint req = Some (Inr (runKey, artifactID, artifact), h1)"
      and "map_of artifact ''status'' = Some (VMap status)"
      and "stateOf status \<noteq> ''CREATED''"
  shows "Upload E V h endpoint req =
           Some ((None, Some (ErrNew (''artifact is not in CREATED state, current state: '' @ stateOf status))), h1)
         \<and> (\<exists>t. h1 = h @ t \<and> (\<forall>e \<in> set t. \<not> remoteMutation e))"
proof -
  have "Upload_check E artifact =
          Inl (ErrNew (''artifact is not in CREATED state, current state: '' @ stateOf status))"
    using assms(3,4) by (simp add: Upload_check_def)
  then have 1: "Upload E V h endpoint req =
           Some ((None, Some (ErrNew (''artifact is not in CREATED state, current state: '' @ stateOf status))), h1)"
    using assms(2) by (simp add: Upload_def)
  from Upload_fetch_existing [OF assms(1,2)] obtain t where
    t: "h1 = h @ t" "\<forall>e \<in> set t. \<exists>url. e = HttpDo ''GET'' url None" by blast
  have "\<forall>e \<in> set t. \<not> remoteMutation e" using t(2) by auto
  with 1 t(1) show ?thesis by blast
qed

theorem Upload_rejects_state_witness:
  "Upload readyEnv noGlobals [] ''artifacts'' existingRequest =
     Some ((None, Some (ErrNew ''artifact is not in CREATED state, current state: READY'')),
           [HttpDo ''GET'' ''/artifacts/a1'' None])"
proof -
  have a: "ur_ID existingRequest \<noteq> []" by (simp add: existingRequest_def)
  have b: "Upload_fetch readyEnv noGlobals [] ''artifacts'' existingRequest =
             Some (Inr ([], ''a1'', [(''status'', VMap [(''state'', VStr ''READY'')])]),
                   [HttpDo ''GET'' ''/artifacts/a1'' None])"
    by (simp add: upload_defs upload_example_defs)
  have c: "map_of [(''status'', VMap [(''state'', VStr ''READY'')])] ''status''
             = Some (VMap [(''state'', VStr ''READY'')])" by simp
  have d: "stateOf [(''state'', VStr ''READY'')] \<noteq> ''CREATED''" by (simp add: stateOf_def)
  from Upload_rejects_state [OF a b c d] show ?thesis by (simp add: stateOf_def)
qed

lemma Upload_fetch_errors:
  assumes "Upload_fetch E V h endpoint req = Some (Inl e, h1)"
  shows "\<forall>err. e \<noteq> ErrWrap ''upload succeeded but failed to update status'' err"
  using assms
  by (auto simp: Upload_fetch_def Let_def split: if_splits option.splits sum.splits prod.splits)

lemma Upload_check_errors:
  assumes "Upload_check E artifact = Inl e"
  shows "\<forall>err. e \<noteq> ErrWrap ''upload succeeded but failed to update status'' err"
  using assms
  by (auto simp: Upload_check_def Let_def split: if_splits option.splits sum.splits val.splits)

lemma updateStatus_errors:
  assumes "updateStatus E h req endpoint artifactID artifact key updateData = Some (Some e, a, h1)"
  shows "\<forall>err. e \<noteq> ErrWrap ''upload succeeded but failed to update status'' err"
  using assms
  by (auto simp: updateStatus_def Let_def split: if_splits option.splits sum.splits)

lemma Upload_transfer_errors:
  assumes "Upload_transfer E h req parsedPath = (Inl e, h1)"
  shows "\<exists>err. e = ErrWrap ''upload failed'' err \<or> e = ErrWrap ''cannot access input'' err"
  using assms
  by (auto simp: Upload_transfer_def Let_def split: if_splits sum.splits prod.splits)

text \<open>
  C2.  When the transfer succeeds and the update to \<^verbatim>\<open>READY\<close> fails, \<^verbatim>\<open>Upload\<close> returns
  the result with the file descriptors together with the error ``upload succeeded but
  failed to update status''.  The caller can tell the two failures apart: a result
  that comes with an error always comes with this one, and a \<^verbatim>\<open>nil\<close> result (as after a
  failed transfer) never does.
\<close>

theorem Upload_partial_success:
  "(Upload_fetch E V h endpoint req = Some (Inr (runKey, artifactID, artifact), h1) \<longrightarrow>
    Upload_check E artifact = Inr parsedPath \<longrightarrow>
    updateStatus E h1 req endpoint artifactID
        (if runKey \<noteq> [] then addRelationship artifact ''produced_by'' runKey else artifact)
        ''status'' [(''state'', VStr ''UPLOADING'')] = Some (None, artifact2, h2) \<longrightarrow>
    Upload_transfer E h2 req parsedPath = (Inr files, h3) \<longrightarrow>
    updateStatus E h3 req endpoint artifactID artifact2 ''status''
        [(''state'', VStr ''READY''), (''files'', VMaps files)] = Some (Some err, artifact3, h4) \<longrightarrow>
    Upload E V h endpoint req =
      Some ((Some \<lparr>res_ArtifactID = artifactID, res_Files = files\<rparr>,
             Some (ErrWrap ''upload succeeded but failed to update status'' err)), h4))
   \<and> (\<forall>res e h'. Upload E V h endpoint req = Some ((Some res, Some e), h') \<longrightarrow>
         (\<exists>err'. e = ErrWrap ''upload succeeded but failed to update status'' err'))
   \<and> (\<forall>e h'. Upload E V h endpoint req = Some ((None, Some e), h') \<longrightarrow>
         (\<forall>err'. e \<noteq> ErrWrap ''upload succeeded but failed to update status'' err'))"
proof (intro conjI impI allI)
  assume "Upload_fetch E V h endpoint req = Some (Inr (runKey, artifactID, artifact), h1)"
     and "Upload_check E artifact = Inr parsedPath"
     and "updateStatus E h1 req endpoint artifactID
        (if runKey \<noteq> [] then addRelationship artifact ''produced_by'' runKey else artifact)
        ''status'' [(''state'', VStr ''UPLOADING'')] = Some (None, artifact2, h2)"
     and "Upload_transfer E h2 req parsedPath = (Inr files, h3)"
     and "updateStatus E h3 req endpoint artifactID artifact2 ''status''
        [(''state'', VStr ''READY''), (''files'', VMaps files)] = Some (Some err, artifact3, h4)"
  then show "Upload E V h endpoint req =
      Some ((Some \<lparr>res_ArtifactID = artifactID, res_Files = files\<rparr>,
             Some (ErrWrap ''upload succeeded but failed to update status'' err)), h4)"
    by (simp add: Upload_def Let_def)
next
  fix res e h'
  assume "Upload E V h endpoint req = Some ((Some res, Some e), h')"
  then show "\<exists>err'. e = ErrWrap ''upload succeeded but failed to update status'' err'"
    by (auto simp: Upload_def Let_def split: option.splits sum.splits prod.splits if_splits)
next
  fix e h' err'
  assume u: "Upload E V h endpoint req = Some ((None, Some e), h')"
  show "e \<noteq> ErrWrap ''upload succeeded but failed to update status'' err'"
  proof
    assume e: "e = ErrWrap ''upload succeeded but failed to update status'' err'"
    from u consider
        (fetch) h1 where "Upload_fetch E V h endpoint req = Some (Inl e, h1)"
      | (check) artifact where "Upload_check E artifact = Inl e"
      | (upd) hh aid art key dat a h1 where "updateStatus E hh req endpoint aid art key dat = Some (Some e, a, h1)"
      | (tr) hh pp h1 where "Upload_transfer E hh req pp = (Inl e, h1)"
      by (auto simp: Upload_def Let_def split: option.splits sum.splits prod.splits if_splits)
    then show False
    proof cases
      case fetch
      then show ?thesis using Upload_fetch_errors e by blast
    next
      case check
      then show ?thesis using Upload_check_errors e by blast
    next
      case upd
      then show ?thesis using updateStatus_errors e by blast
    next
      case tr
      then show ?thesis using Upload_transfer_errors e by blast
    qed
  qed
qed

theorem Upload_partial_success_witness:
  "Upload statusFailsEnv noGlobals [] ''artifacts'' existingRequest =
     Some ((Some \<lparr>res_ArtifactID = ''a1'', res_Files = [dataDescriptor]\<rparr>,
            Some (ErrWrap ''upload succeeded but failed to update status''
                    (ErrWrapData ''failed to update artifact status with data''
                       [(''state'', VStr ''READY''), (''files'', VMaps [dataDescriptor])]
                       (ErrNew ''503 Service Unavailable'')))),
           transferTrace @ [S3PutObject ''bkt'' ''p/artifacts/a1/data.bin'' ''data.bin'', OsStat ''data.bin'',
                            HttpDo ''PUT'' ''/artifacts/a1'' (Some ''READY'')])"
proof -
  have a: "Upload_fetch statusFailsEnv noGlobals [] ''artifacts'' existingRequest =
             Some (Inr ([], ''a1'', createdArtifact), [HttpDo ''GET'' ''/artifacts/a1'' None])"
    by (simp add: upload_defs upload_example_defs)
  have b: "Upload_check statusFailsEnv createdArtifact =
             Inr \<lparr>pp_Scheme = ''s3'', pp_Host = ''bkt'', pp_Path = ''p/artifacts/a1/data.bin'',
                  pp_Filename = ''data.bin''\<rparr>"
    by (simp add: upload_defs upload_example_defs)
  have c: "updateStatus statusFailsEnv [HttpDo ''GET'' ''/artifacts/a1'' None] existingRequest ''artifacts'' ''a1''
             (if ([] :: string) \<noteq> [] then addRelationship createdArtifact ''produced_by'' [] else createdArtifact)
             ''status'' [(''state'', VStr ''UPLOADING'')] =
           Some (None, AList.update ''status'' (VMap [(''state'', VStr ''UPLOADING'')]) createdArtifact,
                 [HttpDo ''GET'' ''/artifacts/a1'' None, HttpDo ''PUT'' ''/artifacts/a1'' (Some ''UPLOADING'')])"
    by (simp add: upload_defs upload_example_defs)
  have d: "Upload_transfer statusFailsEnv
             [HttpDo ''GET'' ''/artifacts/a1'' None, HttpDo ''PUT'' ''/artifacts/a1'' (Some ''UPLOADING'')]
             existingRequest
             \<lparr>pp_Scheme = ''s3'', pp_Host = ''bkt'', pp_Path = ''p/artifacts/a1/data.bin'',
              pp_Filename = ''data.bin''\<rparr> =
           (Inr [dataDescriptor],
            transferTrace @ [S3PutObject ''bkt'' ''p/artifacts/a1/data.bin'' ''data.bin'', OsStat ''data.bin''])"
    by (simp add: upload_defs upload_example_defs dataDescriptor_def transferTrace_def RFC1123_def)
  have e: "updateStatus statusFailsEnv
             (transferTrace @ [S3PutObject ''bkt'' ''p/artifacts/a1/data.bin'' ''data.bin'', OsStat ''data.bin''])
             existingRequest ''artifacts'' ''a1''
             (AList.update ''status'' (VMap [(''state'', VStr ''UPLOADING'')]) createdArtifact)
             ''status'' [(''state'', VStr ''READY''), (''files'', VMaps [dataDescriptor])] =
           Some (Some (ErrWrapData ''failed to update artifact status with data''
                       [(''state'', VStr ''READY''), (''files'', VMaps [dataDescriptor])]
                       (ErrNew ''503 Service Unavailable'')),
                 AList.update ''status'' (VMap [(''state'', VStr ''READY''), (''files'', VMaps [dataDescriptor])]) createdArtifact,
                 transferTrace @ [S3PutObject ''bkt'' ''p/artifacts/a1/data.bin'' ''data.bin'', OsStat ''data.bin'',
                            HttpDo ''PUT'' ''/artifacts/a1'' (Some ''READY'')])"
    by (simp add: upload_defs upload_example_defs)
  from Upload_partial_success [of statusFailsEnv noGlobals "[]" "''artifacts''" existingRequest
        "[]" "''a1''" createdArtifact, THEN conjunct1, rule_format, OF a b c d e]
  show ?thesis .
qed

lemma putsAccepted_append:
  "putsAccepted E h (a @ b) = (putsAccepted E h a \<and> putsAccepted E (h @ a) b)"
  by (induction a arbitrary: h) simp_all

lemma putFiles_append: "putFiles (a @ b) = putFiles a @ putFiles b"
  by (induction a rule: putFiles.induct) simp_all

lemma refused_put_is_last:
  assumes "putsAccepted E h a'" and "putOutcome E (h @ a') e' = Some e0'"
      and "a' @ [e'] = a @ e # b" and "putOutcome E (h @ a) e = Some e0"
  shows "b = [] \<and> e0 = e0'"
proof (cases b rule: rev_cases)
  case Nil
  then have "a' = a" "e' = e" using assms(3) by simp_all
  then show ?thesis using assms(2,4) Nil by simp
next
  case (snoc b' x)
  then have "a' = a @ e # b'" using assms(3) by simp
  then have "putOutcome E (h @ a) e = None" using assms(1) by (simp add: putsAccepted_append)
  then show ?thesis using assms(4) by simp
qed

lemma accepted_puts_not_refused:
  assumes "putsAccepted E h t" and "t = a @ e # b"
  shows "putOutcome E (h @ a) e = None"
  using assms by (simp add: putsAccepted_append)

lemma UploadFileWithProgress_puts:
  assumes "fst (UploadFileWithProgress E h bucket key file hook s) = (r, h')"
  shows "\<exists>t. h' = h @ t \<and>
           ((r = None \<and> putsAccepted E h t \<and> putFiles t = [file])
          \<or> (r \<noteq> None \<and> putsAccepted E h t \<and> putFiles t = [])
          \<or> (\<exists>a e e0. t = a @ [e] \<and> putsAccepted E h a \<and> putOutcome E (h @ a) e = Some e0
                \<and> r = Some e0))"
proof (cases "file_Stat E h file")
  case (Inl err)
  then have "r \<noteq> None" "h' = h @ [FileStat file]"
    using assms by (auto simp: UploadFileWithProgress_result)
  then show ?thesis by simp
next
  case (Inr info)
  show ?thesis
  proof (cases "file_Seek E (h @ [FileStat file]) file")
    case (Some err)
    then have "r \<noteq> None" "h' = h @ [FileStat file, FileSeek file]"
      using assms Inr by (auto simp: UploadFileWithProgress_result)
    then show ?thesis by simp
  next
    case None
    show ?thesis
    proof (cases "file_Seek E (h @ [FileStat file, FileSeek file]) file")
      case (Some err)
      then have "r \<noteq> None" "h' = h @ [FileStat file, FileSeek file, FileSeek file]"
        using assms Inr None by (auto simp: UploadFileWithProgress_result)
      then show ?thesis by simp
    next
      case s2: None
      let ?a = "[FileStat file, FileSeek file, FileSeek file]"
      let ?e = "if fi_Size info > threshold then S3MultipartUpload bucket key file
                else S3PutObject bucket key file"
      have r: "r = putOutcome E (h @ ?a) ?e" and h': "h' = h @ ?a @ [?e]"
        using assms Inr None s2 by (auto simp: UploadFileWithProgress_result)
      have acc: "putsAccepted E h ?a" by simp
      show ?thesis
      proof (cases r)
        case None
        then have "putsAccepted E h (?a @ [?e])" using r acc by (simp add: putsAccepted_append)
        moreover have "putFiles (?a @ [?e]) = [file]" by simp
        ultimately show ?thesis using None h' by blast
      next
        case (Some e0)
        then have "putOutcome E (h @ ?a) ?e = Some e0" using r by simp
        then show ?thesis using Some h' acc by blast
      qed
    qed
  qed
qed

lemma UploadS3File_puts:
  assumes "UploadS3File E h bucket key localPath verbose = (r, h')"
  shows "\<exists>t. h' = h @ t \<and>
           ((\<exists>ds. r = Inr ds \<and> putsAccepted E h t \<and> putFiles t = [localPath])
          \<or> (\<exists>e. r = Inl e \<and> putsAccepted E h t \<and> putFiles t = [])
          \<or> (\<exists>a e e0. t = a @ [e] \<and> putsAccepted E h a \<and> putOutcome E (h @ a) e = Some e0
                \<and> r = Inl (ErrWrap ''upload error'' e0)))"
proof (cases "os_Open E h localPath")
  case (Inl err)
  then have "\<exists>e. r = Inl e" "h' = h @ [OsOpen localPath]"
    using assms by (auto simp: UploadS3File_def)
  then show ?thesis by auto
next
  case (Inr contentType)
  let ?h1 = "h @ [OsOpen localPath]"
  show ?thesis
  proof (cases "file_Seek E ?h1 localPath")
    case (Some err)
    then have "\<exists>e. r = Inl e" "h' = h @ [OsOpen localPath, FileSeek localPath]"
      using assms Inr by (auto simp: UploadS3File_def)
    then show ?thesis by auto
  next
    case None
    have tail: ?thesis
      if res: "(case file_Seek E h3 localPath of
                  Some err \<Rightarrow> (Inl (ErrWrap ''seek error'' err), h3 @ [FileSeek localPath])
                | None \<Rightarrow>
                    (case fst (UploadFileWithProgress E (h3 @ [FileSeek localPath]) bucket key localPath
                                 (Some (terminalHook True)) ()) of
                       (Some err, h4) \<Rightarrow> (Inl (ErrWrap ''upload error'' err), h4)
                     | (None, h4) \<Rightarrow>
                         (case os_Stat E h4 localPath of
                            Inl err \<Rightarrow> (Inr [], h4 @ [OsStat localPath])
                          | Inr info \<Rightarrow>
                              (Inr [fileDescriptor [] (fi_Name info) contentType
                                      (time_Format E RFC1123 (fi_ModTime info)) (fi_Size info)],
                               h4 @ [OsStat localPath])))) = (r, h')"
         and hp: "h3 = h @ p" and pacc: "putsAccepted E h p" "putFiles p = []"
      for h3 p
    proof (cases "file_Seek E h3 localPath")
      case (Some err)
      then have "\<exists>e. r = Inl e" "h' = h @ (p @ [FileSeek localPath])"
        using res hp by auto
      moreover have "putsAccepted E h (p @ [FileSeek localPath])" "putFiles (p @ [FileSeek localPath]) = []"
        using pacc by (simp_all add: putsAccepted_append putFiles_append)
      ultimately show ?thesis by blast
    next
      case s3: None
      let ?q = "p @ [FileSeek localPath]"
      have hq: "h3 @ [FileSeek localPath] = h @ ?q" using hp by simp
      obtain ur uh where u: "fst (UploadFileWithProgress E (h3 @ [FileSeek localPath]) bucket key localPath
                                    (Some (terminalHook True)) ()) = (ur, uh)"
        by (cases "fst (UploadFileWithProgress E (h3 @ [FileSeek localPath]) bucket key localPath
                          (Some (terminalHook True)) ())")
      have qacc: "putsAccepted E h ?q" "putFiles ?q = []"
        using pacc by (simp_all add: putsAccepted_append putFiles_append)
      from UploadFileWithProgress_puts [OF u] obtain t where
        uh: "uh = (h @ ?q) @ t" and
        c: "(ur = None \<and> putsAccepted E (h @ ?q) t \<and> putFiles t = [localPath])
          \<or> (ur \<noteq> None \<and> putsAccepted E (h @ ?q) t \<and> putFiles t = [])
          \<or> (\<exists>a e e0. t = a @ [e] \<and> putsAccepted E (h @ ?q) a \<and> putOutcome E ((h @ ?q) @ a) e = Some e0
                \<and> ur = Some e0)"
        unfolding hq by blast
      have res': "(r, h') = (case ur of
                    Some err \<Rightarrow> (Inl (ErrWrap ''upload error'' err), uh)
                  | None \<Rightarrow> (case os_Stat E uh localPath of
                               Inl err \<Rightarrow> (Inr [], uh @ [OsStat localPath])
                             | Inr info \<Rightarrow>
                                 (Inr [fileDescriptor [] (fi_Name info) contentType
                                         (time_Format E RFC1123 (fi_ModTime info)) (fi_Size info)],
                                  uh @ [OsStat localPath])))"
        using res s3 u by (auto split: option.splits)
      from c show ?thesis
      proof (elim disjE exE conjE)
        assume n: "ur = None" and a: "putsAccepted E (h @ ?q) t" and f: "putFiles t = [localPath]"
        have "h' = h @ (?q @ t @ [OsStat localPath])" and "\<exists>ds. r = Inr ds"
          using res' n uh by (auto split: sum.splits)
        moreover have "putsAccepted E h (?q @ t @ [OsStat localPath])"
          using qacc a by (simp add: putsAccepted_append)
        moreover have "putFiles (?q @ t @ [OsStat localPath]) = [localPath]"
          using f qacc by (simp add: putFiles_append)
        ultimately show ?thesis by blast
      next
        assume n: "ur \<noteq> None" and a: "putsAccepted E (h @ ?q) t" and f: "putFiles t = []"
        have "h' = h @ (?q @ t)" and "\<exists>e. r = Inl e"
          using res' n uh by (auto split: option.splits)
        moreover have "putsAccepted E h (?q @ t)"
          using qacc a by (simp add: putsAccepted_append)
        moreover have "putFiles (?q @ t) = []"
          using f qacc by (simp add: putFiles_append)
        ultimately show ?thesis by blast
      next
        fix a e e0
        assume t: "t = a @ [e]" and a: "putsAccepted E (h @ ?q) a"
           and o: "putOutcome E ((h @ ?q) @ a) e = Some e0" and n: "ur = Some e0"
        have "h' = h @ ((?q @ a) @ [e])" and "r = Inl (ErrWrap ''upload error'' e0)"
          using res' n uh t by auto
        moreover have "putsAccepted E h (?q @ a)"
          using qacc a by (simp add: putsAccepted_append)
        moreover have "putOutcome E (h @ (?q @ a)) e = Some e0" using o by simp
        ultimately show ?thesis by blast
      qed
    qed
    have res: "(case file_Seek E (if verbose then ?h1 @ [FileSeek localPath]
                                  else (?h1 @ [FileSeek localPath]) @ [FileStat localPath]) localPath of
                  Some err \<Rightarrow>
                    (Inl (ErrWrap ''seek error'' err),
                     (if verbose then ?h1 @ [FileSeek localPath]
                      else (?h1 @ [FileSeek localPath]) @ [FileStat localPath]) @ [FileSeek localPath])
                | None \<Rightarrow>
                    (case fst (UploadFileWithProgress E
                                 ((if verbose then ?h1 @ [FileSeek localPath]
                                   else (?h1 @ [FileSeek localPath]) @ [FileStat localPath])
                                  @ [FileSeek localPath]) bucket key localPath
                                 (Some (terminalHook True)) ()) of
                       (Some err, h4) \<Rightarrow> (Inl (ErrWrap ''upload error'' err), h4)
                     | (None, h4) \<Rightarrow>
                         (case os_Stat E h4 localPath of
                            Inl err \<Rightarrow> (Inr [], h4 @ [OsStat localPath])
                          | Inr info \<Rightarrow>
                              (Inr [fileDescriptor [] (fi_Name info) contentType
                                      (time_Format E RFC1123 (fi_ModTime info)) (fi_Size info)],
                               h4 @ [OsStat localPath])))) = (r, h')"
      using assms Inr None unfolding UploadS3File_def Let_def by simp
    show ?thesis
      by (rule tail [OF res, of "[OsOpen localPath, FileSeek localPath]
                                  @ (if verbose then [] else [FileStat localPath])"]) simp_all
  qed
qed

lemma UploadS3Dir_file_puts:
  assumes "UploadS3Dir_file E h bucket pfx localPath verbose path = (r, h')"
  shows "\<exists>t. h' = h @ t \<and>
           ((\<exists>d. r = Inr d \<and> putsAccepted E h t \<and> putFiles t = [path])
          \<or> (\<exists>e. r = Inl e \<and> putsAccepted E h t \<and> putFiles t = [])
          \<or> (\<exists>a e e0. t = a @ [e] \<and> putsAccepted E h a \<and> putOutcome E (h @ a) e = Some e0
                \<and> r = Inl (ErrWrap (''upload error ('' @ path @ '')'') e0)))"
proof -
  have early: ?thesis if "\<exists>e. r = Inl e" and "h' = h @ p" and "putsAccepted E h p" and "putFiles p = []" for p
    using that by blast
  show ?thesis
  proof (cases "os_Stat E h path")
    case (Inl err)
    show ?thesis
      by (rule early [of "[OsStat path]"]) (use assms Inl in \<open>auto simp: UploadS3Dir_file_def\<close>)
  next
    case st: (Inr info)
    show ?thesis
    proof (cases "filepath_Rel E localPath path")
      case (Inl err)
      show ?thesis
        by (rule early [of "[OsStat path]"]) (use assms st Inl in \<open>auto simp: UploadS3Dir_file_def\<close>)
    next
      case rel: (Inr relPath)
      show ?thesis
      proof (cases "os_Open E (h @ [OsStat path]) path")
        case (Inl err)
        show ?thesis
          by (rule early [of "[OsStat path, OsOpen path]"])
             (use assms st rel Inl in \<open>auto simp: UploadS3Dir_file_def\<close>)
      next
        case op: (Inr contentType)
        show ?thesis
        proof (cases "file_Seek E (h @ [OsStat path, OsOpen path]) path")
          case (Some err)
          show ?thesis
            by (rule early [of "[OsStat path, OsOpen path, FileSeek path]"])
               (use assms st rel op Some in \<open>auto simp: UploadS3Dir_file_def\<close>)
        next
          case s1: None
          show ?thesis
          proof (cases "file_Seek E (h @ [OsStat path, OsOpen path, FileSeek path]) path")
            case (Some err)
            show ?thesis
              by (rule early [of "[OsStat path, OsOpen path, FileSeek path, FileSeek path]"])
                 (use assms st rel op s1 Some in \<open>auto simp: UploadS3Dir_file_def\<close>)
          next
            case s2: None
            let ?q = "[OsStat path, OsOpen path, FileSeek path, FileSeek path]"
            let ?key = "filepath_ToSlash E (filepath_Join E [pfx, relPath])"
            obtain ur uh where u: "fst (UploadFileWithProgress E (h @ ?q) bucket ?key path
                                          (Some (terminalHook verbose)) ()) = (ur, uh)"
              by (cases "fst (UploadFileWithProgress E (h @ ?q) bucket ?key path
                                (Some (terminalHook verbose)) ())")
            have qacc: "putsAccepted E h ?q" "putFiles ?q = []" by simp_all
            from UploadFileWithProgress_puts [OF u] obtain t where
              uh: "uh = (h @ ?q) @ t" and
              c: "(ur = None \<and> putsAccepted E (h @ ?q) t \<and> putFiles t = [path])
                \<or> (ur \<noteq> None \<and> putsAccepted E (h @ ?q) t \<and> putFiles t = [])
                \<or> (\<exists>a e e0. t = a @ [e] \<and> putsAccepted E (h @ ?q) a
                      \<and> putOutcome E ((h @ ?q) @ a) e = Some e0 \<and> ur = Some e0)"
              by blast
            have res: "(case ur of
                          Some err \<Rightarrow> \<exists>e. r = Inl (ErrWrap (''upload error ('' @ path @ '')'') err) \<and> h' = uh
                        | None \<Rightarrow> (\<exists>d. r = Inr d) \<and> h' = uh)"
              using assms st rel op s1 s2 u
              by (auto simp: UploadS3Dir_file_def Let_def split: option.splits)
            from c show ?thesis
            proof (elim disjE exE conjE)
              assume n: "ur = None" and a: "putsAccepted E (h @ ?q) t" and f: "putFiles t = [path]"
              have "h' = h @ (?q @ t)" and "\<exists>d. r = Inr d" using res n uh by auto
              moreover have "putsAccepted E h (?q @ t)"
                using a qacc by (simp add: putsAccepted_append)
              moreover have "putFiles (?q @ t) = [path]"
                using f qacc by (simp add: putFiles_append)
              ultimately show ?thesis by blast
            next
              assume n: "ur \<noteq> None" and a: "putsAccepted E (h @ ?q) t" and f: "putFiles t = []"
              have "h' = h @ (?q @ t)" and "\<exists>e. r = Inl e" using res n uh by auto
              moreover have "putsAccepted E h (?q @ t)"
                using a qacc by (simp add: putsAccepted_append)
              moreover have "putFiles (?q @ t) = []"
                using f qacc by (simp add: putFiles_append)
              ultimately show ?thesis by blast
            next
              fix a e e0
              assume t: "t = a @ [e]" and a: "putsAccepted E (h @ ?q) a"
                 and o: "putOutcome E ((h @ ?q) @ a) e = Some e0" and n: "ur = Some e0"
              have "h' = h @ ((?q @ a) @ [e])"
                and "r = Inl (ErrWrap (''upload error ('' @ path @ '')'') e0)"
                using res n uh t by auto
              moreover have "putsAccepted E h (?q @ a)"
                using a qacc by (simp add: putsAccepted_append)
              moreover have "putOutcome E (h @ (?q @ a)) e = Some e0" using o by simp
              ultimately show ?thesis by blast
            qed
          qed
        qed
      qed
    qed
  qed
qed

lemma UploadS3Dir_files_puts:
  assumes "UploadS3Dir_files E h bucket pfx localPath verbose files infos = (r, h')"
  shows "\<exists>t. h' = h @ t \<and>
           ((\<exists>ds. r = Inr ds \<and> putsAccepted E h t \<and> putFiles t = files
                \<and> length ds = length infos + length files)
          \<or> (\<exists>e. r = Inl e \<and> putsAccepted E h t)
          \<or> (\<exists>a e e0 w. t = a @ [e] \<and> putsAccepted E h a \<and> putOutcome E (h @ a) e = Some e0
                \<and> r = Inl (ErrWrap w e0)))"
  using assms
proof (induction files arbitrary: h infos)
  case Nil
  then have "h' = h @ []" "r = Inr infos" by simp_all
  then show ?case by (intro exI [of _ "[]"]) simp
next
  case (Cons path files)
  obtain r1 h1 where f: "UploadS3Dir_file E h bucket pfx localPath verbose path = (r1, h1)"
    by (cases "UploadS3Dir_file E h bucket pfx localPath verbose path")
  from UploadS3Dir_file_puts [OF f] obtain t1 where
    h1: "h1 = h @ t1" and
    c1: "(\<exists>d. r1 = Inr d \<and> putsAccepted E h t1 \<and> putFiles t1 = [path])
       \<or> (\<exists>e. r1 = Inl e \<and> putsAccepted E h t1 \<and> putFiles t1 = [])
       \<or> (\<exists>a e e0. t1 = a @ [e] \<and> putsAccepted E h a \<and> putOutcome E (h @ a) e = Some e0
             \<and> r1 = Inl (ErrWrap (''upload error ('' @ path @ '')'') e0))"
    by blast
  from c1 show ?case
  proof (elim disjE exE conjE)
    fix d
    assume r1: "r1 = Inr d" and a1: "putsAccepted E h t1" and p1: "putFiles t1 = [path]"
    have rest: "UploadS3Dir_files E h1 bucket pfx localPath verbose files (infos @ [d]) = (r, h')"
      using Cons.prems f r1 by simp
    from Cons.IH [OF rest] obtain t2 where
      h': "h' = h1 @ t2" and
      c2: "(\<exists>ds. r = Inr ds \<and> putsAccepted E h1 t2 \<and> putFiles t2 = files
                \<and> length ds = length (infos @ [d]) + length files)
         \<or> (\<exists>e. r = Inl e \<and> putsAccepted E h1 t2)
         \<or> (\<exists>a e e0 w. t2 = a @ [e] \<and> putsAccepted E h1 a \<and> putOutcome E (h1 @ a) e = Some e0
               \<and> r = Inl (ErrWrap w e0))"
      by blast
    have hh: "h' = h @ (t1 @ t2)" using h' h1 by simp
    from c2 show ?thesis
    proof (elim disjE exE conjE)
      fix ds
      assume "r = Inr ds" and a2: "putsAccepted E h1 t2" and "putFiles t2 = files"
         and "length ds = length (infos @ [d]) + length files"
      moreover have "putsAccepted E h (t1 @ t2)" using a1 a2 h1 by (simp add: putsAccepted_append)
      moreover have "putFiles (t1 @ t2) = path # putFiles t2" using p1 by (simp add: putFiles_append)
      ultimately show ?thesis using hh by auto
    next
      fix e
      assume "r = Inl e" and a2: "putsAccepted E h1 t2"
      moreover have "putsAccepted E h (t1 @ t2)" using a1 a2 h1 by (simp add: putsAccepted_append)
      ultimately show ?thesis using hh by blast
    next
      fix a e e0 w
      assume t2: "t2 = a @ [e]" and a2: "putsAccepted E h1 a"
         and o: "putOutcome E (h1 @ a) e = Some e0" and r: "r = Inl (ErrWrap w e0)"
      have "h' = h @ ((t1 @ a) @ [e])" using hh t2 by simp
      moreover have "putsAccepted E h (t1 @ a)" using a1 a2 h1 by (simp add: putsAccepted_append)
      moreover have "putOutcome E (h @ (t1 @ a)) e = Some e0" using o h1 by simp
      ultimately show ?thesis using r by blast
    qed
  next
    fix e
    assume r1: "r1 = Inl e" and a1: "putsAccepted E h t1"
    have "r = Inl e" "h' = h1" using Cons.prems f r1 by simp_all
    then show ?thesis using a1 h1 by blast
  next
    fix a e e0
    assume t1: "t1 = a @ [e]" and a1: "putsAccepted E h a"
       and o: "putOutcome E (h @ a) e = Some e0"
       and r1: "r1 = Inl (ErrWrap (''upload error ('' @ path @ '')'') e0)"
    have "r = Inl (ErrWrap (''upload error ('' @ path @ '')'') e0)" "h' = h1"
      using Cons.prems f r1 by simp_all
    then show ?thesis using a1 o h1 t1 by blast
  qed
qed

lemma Upload_transfer_puts:
  assumes "Upload_transfer E h req pp = (r, h')"
  shows "\<exists>t. h' = h @ t \<and>
           ((\<exists>ds. r = Inr ds \<and> putsAccepted E h t
               \<and> (\<forall>st. os_Stat E h (ur_Input req) = Inr st \<longrightarrow>
                     (if fi_IsDir st
                      then (\<exists>localFiles.
                              walkCollect (filepath_Walk E (h @ [OsStat (ur_Input req)]) (ur_Input req)) []
                                = Inr localFiles
                            \<and> putFiles t = localFiles \<and> length ds = length localFiles)
                      else putFiles t = [ur_Input req])))
          \<or> (\<exists>e. r = Inl e \<and> putsAccepted E h t)
          \<or> (\<exists>a e e0 w. t = a @ [e] \<and> putsAccepted E h a \<and> putOutcome E (h @ a) e = Some e0
                \<and> r = Inl (ErrWrap ''upload failed'' (ErrWrap w e0))))"
proof (cases "os_Stat E h (ur_Input req)")
  case (Inl err)
  then have "\<exists>e. r = Inl e" "h' = h @ [OsStat (ur_Input req)]"
    using assms by (auto simp: Upload_transfer_def)
  moreover have "putsAccepted E h [OsStat (ur_Input req)]" by simp
  ultimately show ?thesis by blast
next
  case (Inr st)
  let ?in = "ur_Input req"
  let ?h1 = "h @ [OsStat ?in]"
  show ?thesis
  proof (cases "fi_IsDir st")
    case True
    show ?thesis
    proof (cases "walkCollect (filepath_Walk E ?h1 ?in) []")
      case (Inl err)
      then have "\<exists>e. r = Inl e" "h' = h @ [OsStat ?in, FilepathWalk ?in]"
        using assms Inr True by (auto simp: Upload_transfer_def UploadS3Dir_def)
      moreover have "putsAccepted E h [OsStat ?in, FilepathWalk ?in]" by simp
      ultimately show ?thesis by blast
    next
      case w: (Inr localFiles)
      let ?h2 = "h @ [OsStat ?in, FilepathWalk ?in]"
      obtain r2 h2 where d: "UploadS3Dir_files E ?h2 (pp_Host pp) (pp_Path pp) ?in (ur_Verbose req)
                               localFiles [] = (r2, h2)"
        by (cases "UploadS3Dir_files E ?h2 (pp_Host pp) (pp_Path pp) ?in (ur_Verbose req) localFiles []")
      have res: "(case r2 of Inl err \<Rightarrow> r = Inl (ErrWrap ''upload failed'' err) | Inr ds \<Rightarrow> r = Inr ds)
                 \<and> h' = h2"
        using assms Inr True w d by (auto simp: Upload_transfer_def UploadS3Dir_def split: sum.splits)
      from UploadS3Dir_files_puts [OF d] obtain t where
        h2: "h2 = ?h2 @ t" and
        c: "(\<exists>ds. r2 = Inr ds \<and> putsAccepted E ?h2 t \<and> putFiles t = localFiles
                \<and> length ds = length ([] :: doc list) + length localFiles)
          \<or> (\<exists>e. r2 = Inl e \<and> putsAccepted E ?h2 t)
          \<or> (\<exists>a e e0 w. t = a @ [e] \<and> putsAccepted E ?h2 a \<and> putOutcome E (?h2 @ a) e = Some e0
                \<and> r2 = Inl (ErrWrap w e0))"
        by blast
      let ?p = "[OsStat ?in, FilepathWalk ?in]"
      have hh: "h' = h @ (?p @ t)" using res h2 by simp
      from c show ?thesis
      proof (elim disjE exE conjE)
        fix ds
        assume r2: "r2 = Inr ds" and a: "putsAccepted E ?h2 t" and f: "putFiles t = localFiles"
           and l: "length ds = length ([] :: doc list) + length localFiles"
        have "r = Inr ds" using res r2 by simp
        moreover have "putsAccepted E h (?p @ t)" using a by (simp add: putsAccepted_append)
        moreover have "putFiles (?p @ t) = localFiles" using f by (simp add: putFiles_append)
        ultimately show ?thesis using hh Inr True w l by auto
      next
        fix e
        assume r2: "r2 = Inl e" and a: "putsAccepted E ?h2 t"
        have "\<exists>e. r = Inl e" using res r2 by simp
        moreover have "putsAccepted E h (?p @ t)" using a by (simp add: putsAccepted_append)
        ultimately show ?thesis using hh by blast
      next
        fix a e e0 w
        assume t: "t = a @ [e]" and a: "putsAccepted E ?h2 a"
           and o: "putOutcome E (?h2 @ a) e = Some e0" and r2: "r2 = Inl (ErrWrap w e0)"
        have "r = Inl (ErrWrap ''upload failed'' (ErrWrap w e0))" using res r2 by simp
        moreover have "h' = h @ ((?p @ a) @ [e])" using hh t by simp
        moreover have "putsAccepted E h (?p @ a)" using a by (simp add: putsAccepted_append)
        moreover have "putOutcome E (h @ (?p @ a)) e = Some e0" using o by simp
        ultimately show ?thesis by blast
      qed
    qed
  next
    case False
    let ?key = "if HasSuffix (pp_Path pp) ''/''
                then filepath_ToSlash E (filepath_Join E [pp_Path pp, fi_Name st])
                else pp_Path pp"
    obtain r2 h2 where d: "UploadS3File E ?h1 (pp_Host pp) ?key ?in (ur_Verbose req) = (r2, h2)"
      by (cases "UploadS3File E ?h1 (pp_Host pp) ?key ?in (ur_Verbose req)")
    have res: "(case r2 of Inl err \<Rightarrow> r = Inl (ErrWrap ''upload failed'' err) | Inr ds \<Rightarrow> r = Inr ds)
               \<and> h' = h2"
      using assms Inr False d by (auto simp: Upload_transfer_def Let_def split: sum.splits)
    from UploadS3File_puts [OF d] obtain t where
      h2: "h2 = ?h1 @ t" and
      c: "(\<exists>ds. r2 = Inr ds \<and> putsAccepted E ?h1 t \<and> putFiles t = [?in])
        \<or> (\<exists>e. r2 = Inl e \<and> putsAccepted E ?h1 t \<and> putFiles t = [])
        \<or> (\<exists>a e e0. t = a @ [e] \<and> putsAccepted E ?h1 a \<and> putOutcome E (?h1 @ a) e = Some e0
              \<and> r2 = Inl (ErrWrap ''upload error'' e0))"
      by blast
    let ?p = "[OsStat ?in]"
    have hh: "h' = h @ (?p @ t)" using res h2 by simp
    from c show ?thesis
    proof (elim disjE exE conjE)
      fix ds
      assume r2: "r2 = Inr ds" and a: "putsAccepted E ?h1 t" and f: "putFiles t = [?in]"
      have "r = Inr ds" using res r2 by simp
      moreover have "putsAccepted E h (?p @ t)" using a by (simp add: putsAccepted_append)
      moreover have "putFiles (?p @ t) = [?in]" using f by (simp add: putFiles_append)
      ultimately show ?thesis using hh Inr False by auto
    next
      fix e
      assume r2: "r2 = Inl e" and a: "putsAccepted E ?h1 t"
      have "\<exists>e. r = Inl e" using res r2 by simp
      moreover have "putsAccepted E h (?p @ t)" using a by (simp add: putsAccepted_append)
      ultimately show ?thesis using hh by blast
    next
      fix a e e0
      assume t: "t = a @ [e]" and a: "putsAccepted E ?h1 a"
         and o: "putOutcome E (?h1 @ a) e = Some e0" and r2: "r2 = Inl (ErrWrap ''upload error'' e0)"
      have "r = Inl (ErrWrap ''upload failed'' (ErrWrap ''upload error'' e0))" using res r2 by simp
      moreover have "h' = h @ ((?p @ a) @ [e])" using hh t by simp
      moreover have "putsAccepted E h (?p @ a)" using a by (simp add: putsAccepted_append)
      moreover have "putOutcome E (h @ (?p @ a)) e = Some e0" using o by simp
      ultimately show ?thesis by blast
    qed
  qed
qed

lemma updateStatus_merge:
  assumes "updateStatus E h req endpoint artifactID artifact ''status'' [(''state'', VStr s)]
             = Some (r, artifact', h')"
  shows "\<exists>st. map_of artifact' ''status'' = Some (VMap st) \<and> map_of st ''state'' = Some (VStr s)
           \<and> (\<forall>k. k \<noteq> ''state'' \<longrightarrow>
                 map_of st k = map_of (case map_of artifact ''status'' of Some (VMap m) \<Rightarrow> m | _ \<Rightarrow> []) k)
           \<and> (\<forall>k. k \<noteq> ''status'' \<longrightarrow> map_of artifact' k = map_of artifact k)"
proof -
  let ?ex = "case map_of artifact ''status'' of Some (VMap m) \<Rightarrow> m | _ \<Rightarrow> []"
  obtain merged where m: "MergeMaps (rangeOrder E) ?ex [(''state'', VStr s)] (Some Map.empty) = Some merged"
    using MergeMaps_empty_config by blast
  have s: "map_of merged ''state'' = Some (VStr s)" using m by (rule MergeMaps_state)
  have o: "map_of merged k = map_of ?ex k" if "k \<noteq> ''state''" for k
    by (rule MergeMaps_base_only [OF _ m]) (use that in simp)
  have a: "artifact' = AList.update ''status'' (VMap merged) artifact"
    using assms m by (auto simp: updateStatus_def Let_def split: sum.splits)
  show ?thesis using a s o by (auto simp: AList.update_conv')
qed

lemma updateStatus_put:
  assumes "updateStatus E h req endpoint artifactID artifact key updateData = Some (r, artifact', h')"
  shows "(\<forall>payload. json_Marshal E (VMap artifact') = Inr payload \<longrightarrow>
            h' = h @ [HttpDo ''PUT'' (BuildURL E (ur_Project req) endpoint artifactID []) (Some payload)]
          \<and> (r = None) =
              (\<exists>body. http_Do E h ''PUT'' (BuildURL E (ur_Project req) endpoint artifactID [])
                         (Some payload) = Inr body))
       \<and> (\<forall>err. json_Marshal E (VMap artifact') = Inl err \<longrightarrow> h' = h \<and> r \<noteq> None)"
  using assms by (auto simp: updateStatus_def Let_def split: sum.splits option.splits)

text \<open>
  C3.  Whatever the transfer of step 7 returns, every put it makes but the last was
  accepted by the object store, and a put that the object store refuses, of the single
  file or of any file of the directory, is the last call of the transfer, which fails
  with ``upload failed'' around the error of that put; a transfer that succeeds had
  every put accepted and, for a directory, has put every file that the walk found and
  returns a descriptor for each.  When the transfer fails (a failed stat of the input
  included), \<^verbatim>\<open>Upload\<close> calls \<^verbatim>\<open>updateStatus\<close> with the state \<^verbatim>\<open>ERROR\<close>.  That call
  returns (the merge cannot panic).  It is a merge: the status gets the state \<^verbatim>\<open>ERROR\<close>
  and keeps every other field it had, and the artifact keeps every other field.  When
  the artifact can be encoded the call sends it with a \<^verbatim>\<open>PUT\<close>, the last call
  \<^verbatim>\<open>Upload\<close> makes.  Whether that update succeeds or fails, \<^verbatim>\<open>Upload\<close> returns a \<^verbatim>\<open>nil\<close>
  result with the error of the transfer.
\<close>

theorem Upload_transfer_failure:
  assumes fetch: "Upload_fetch E V h endpoint req = Some (Inr (runKey, artifactID, artifact), h1)"
      and check: "Upload_check E artifact = Inr parsedPath"
      and up: "updateStatus E h1 req endpoint artifactID
                 (if runKey \<noteq> [] then addRelationship artifact ''produced_by'' runKey else artifact)
                 ''status'' [(''state'', VStr ''UPLOADING'')] = Some (None, artifact2, h2)"
      and tr: "Upload_transfer E h2 req parsedPath = (r, h3)"
  shows "(\<forall>err. r = Inl err \<longrightarrow>
            (\<exists>ignored artifact3 h4 st.
               updateStatus E h3 req endpoint artifactID artifact2 ''status'' [(''state'', VStr ''ERROR'')]
                 = Some (ignored, artifact3, h4)
             \<and> Upload E V h endpoint req = Some ((None, Some err), h4)
             \<and> (\<exists>e. err = ErrWrap ''upload failed'' e \<or> err = ErrWrap ''cannot access input'' e)
             \<and> map_of artifact3 ''status'' = Some (VMap st)
             \<and> map_of st ''state'' = Some (VStr ''ERROR'')
             \<and> (\<forall>k. k \<noteq> ''state'' \<longrightarrow>
                   map_of st k =
                     map_of (case map_of artifact2 ''status'' of Some (VMap m) \<Rightarrow> m | _ \<Rightarrow> []) k)
             \<and> (\<forall>k. k \<noteq> ''status'' \<longrightarrow> map_of artifact3 k = map_of artifact2 k)
             \<and> (\<forall>payload. json_Marshal E (VMap artifact3) = Inr payload \<longrightarrow>
                   h4 = h3 @ [HttpDo ''PUT'' (BuildURL E (ur_Project req) endpoint artifactID [])
                                (Some payload)]
                 \<and> (ignored = None) =
                     (\<exists>body. http_Do E h3 ''PUT'' (BuildURL E (ur_Project req) endpoint artifactID [])
                                (Some payload) = Inr body))
             \<and> (\<forall>e. json_Marshal E (VMap artifact3) = Inl e \<longrightarrow> h4 = h3 \<and> ignored \<noteq> None)))
       \<and> (\<exists>t. h3 = h2 @ t
            \<and> (\<forall>a e b e0. t = a @ e # b \<longrightarrow> putOutcome E (h2 @ a) e = Some e0 \<longrightarrow>
                  b = [] \<and> (\<exists>w. r = Inl (ErrWrap ''upload failed'' (ErrWrap w e0))))
            \<and> (\<forall>ds. r = Inr ds \<longrightarrow>
                  putsAccepted E h2 t
                \<and> (\<forall>st. os_Stat E h2 (ur_Input req) = Inr st \<longrightarrow>
                      (if fi_IsDir st
                       then (\<exists>localFiles.
                               walkCollect (filepath_Walk E (h2 @ [OsStat (ur_Input req)]) (ur_Input req)) []
                                 = Inr localFiles
                             \<and> putFiles t = localFiles \<and> length ds = length localFiles)
                       else putFiles t = [ur_Input req]))))"
proof (intro conjI allI impI)
  fix err
  assume r: "r = Inl err"
  obtain ignored artifact3 h4 where
    u: "updateStatus E h3 req endpoint artifactID artifact2 ''status'' [(''state'', VStr ''ERROR'')]
          = Some (ignored, artifact3, h4)"
    using updateStatus_returns by blast
  have 1: "Upload E V h endpoint req = Some ((None, Some err), h4)"
    using fetch check up tr r u by (simp add: Upload_def Let_def)
  have 2: "\<exists>e. err = ErrWrap ''upload failed'' e \<or> err = ErrWrap ''cannot access input'' e"
    using tr r by (intro Upload_transfer_errors [of E h2 req parsedPath err h3]) simp
  from updateStatus_merge [OF u] obtain st where
    3: "map_of artifact3 ''status'' = Some (VMap st)" "map_of st ''state'' = Some (VStr ''ERROR'')"
       "\<forall>k. k \<noteq> ''state'' \<longrightarrow>
          map_of st k = map_of (case map_of artifact2 ''status'' of Some (VMap m) \<Rightarrow> m | _ \<Rightarrow> []) k"
       "\<forall>k. k \<noteq> ''status'' \<longrightarrow> map_of artifact3 k = map_of artifact2 k"
    by blast
  note 4 = updateStatus_put [OF u]
  show "\<exists>ignored artifact3 h4 st.
               updateStatus E h3 req endpoint artifactID artifact2 ''status'' [(''state'', VStr ''ERROR'')]
                 = Some (ignored, artifact3, h4)
             \<and> Upload E V h endpoint req = Some ((None, Some err), h4)
             \<and> (\<exists>e. err = ErrWrap ''upload failed'' e \<or> err = ErrWrap ''cannot access input'' e)
             \<and> map_of artifact3 ''status'' = Some (VMap st)
             \<and> map_of st ''state'' = Some (VStr ''ERROR'')
             \<and> (\<forall>k. k \<noteq> ''state'' \<longrightarrow>
                   map_of st k =
                     map_of (case map_of artifact2 ''status'' of Some (VMap m) \<Rightarrow> m | _ \<Rightarrow> []) k)
             \<and> (\<forall>k. k \<noteq> ''status'' \<longrightarrow> map_of artifact3 k = map_of artifact2 k)
             \<and> (\<forall>payload. json_Marshal E (VMap artifact3) = Inr payload \<longrightarrow>
                   h4 = h3 @ [HttpDo ''PUT'' (BuildURL E (ur_Project req) endpoint artifactID [])
                                (Some payload)]
                 \<and> (ignored = None) =
                     (\<exists>body. http_Do E h3 ''PUT'' (BuildURL E (ur_Project req) endpoint artifactID [])
                                (Some payload) = Inr body))
             \<and> (\<forall>e. json_Marshal E (VMap artifact3) = Inl e \<longrightarrow> h4 = h3 \<and> ignored \<noteq> None)"
    by (intro exI [of _ ignored] exI [of _ artifact3] exI [of _ h4] exI [of _ st] conjI;
        (rule u | rule 1 | rule 2 | rule 3 | rule 4 [THEN conjunct1] | rule 4 [THEN conjunct2]))
next
  from Upload_transfer_puts [OF tr] obtain t where
    h3: "h3 = h2 @ t" and
    c: "(\<exists>ds. r = Inr ds \<and> putsAccepted E h2 t
               \<and> (\<forall>st. os_Stat E h2 (ur_Input req) = Inr st \<longrightarrow>
                     (if fi_IsDir st
                      then (\<exists>localFiles.
                              walkCollect (filepath_Walk E (h2 @ [OsStat (ur_Input req)]) (ur_Input req)) []
                                = Inr localFiles
                            \<and> putFiles t = localFiles \<and> length ds = length localFiles)
                      else putFiles t = [ur_Input req])))
          \<or> (\<exists>e. r = Inl e \<and> putsAccepted E h2 t)
          \<or> (\<exists>a e e0 w. t = a @ [e] \<and> putsAccepted E h2 a \<and> putOutcome E (h2 @ a) e = Some e0
                \<and> r = Inl (ErrWrap ''upload failed'' (ErrWrap w e0)))"
    by blast
  have refused: "b = [] \<and> (\<exists>w. r = Inl (ErrWrap ''upload failed'' (ErrWrap w e0)))"
    if s: "t = a @ e # b" and o: "putOutcome E (h2 @ a) e = Some e0" for a e b e0
  proof -
    have "\<not> putsAccepted E h2 t"
      using accepted_puts_not_refused [OF _ s, of E h2] o by auto
    with c obtain a' e' e0' w where
      t: "t = a' @ [e']" and a: "putsAccepted E h2 a'"
      and o': "putOutcome E (h2 @ a') e' = Some e0'"
      and r: "r = Inl (ErrWrap ''upload failed'' (ErrWrap w e0'))"
      by blast
    have "a' @ [e'] = a @ e # b" using t s by simp
    from refused_put_is_last [OF a o' this o] r show ?thesis by blast
  qed
  have success: "putsAccepted E h2 t
                \<and> (\<forall>st. os_Stat E h2 (ur_Input req) = Inr st \<longrightarrow>
                      (if fi_IsDir st
                       then (\<exists>localFiles.
                               walkCollect (filepath_Walk E (h2 @ [OsStat (ur_Input req)]) (ur_Input req)) []
                                 = Inr localFiles
                             \<and> putFiles t = localFiles \<and> length ds = length localFiles)
                       else putFiles t = [ur_Input req]))"
    if "r = Inr ds" for ds
    using c that by auto
  show "\<exists>t. h3 = h2 @ t
            \<and> (\<forall>a e b e0. t = a @ e # b \<longrightarrow> putOutcome E (h2 @ a) e = Some e0 \<longrightarrow>
                  b = [] \<and> (\<exists>w. r = Inl (ErrWrap ''upload failed'' (ErrWrap w e0))))
            \<and> (\<forall>ds. r = Inr ds \<longrightarrow>
                  putsAccepted E h2 t
                \<and> (\<forall>st. os_Stat E h2 (ur_Input req) = Inr st \<longrightarrow>
                      (if fi_IsDir st
                       then (\<exists>localFiles.
                               walkCollect (filepath_Walk E (h2 @ [OsStat (ur_Input req)]) (ur_Input req)) []
                                 = Inr localFiles
                             \<and> putFiles t = localFiles \<and> length ds = length localFiles)
                       else putFiles t = [ur_Input req])))"
    using h3 refused success by (intro exI [of _ t]) blast
qed

theorem Upload_transfer_failure_witness:
  "Upload directoryEnv noGlobals [] ''artifacts'' directoryRequest =
     Some ((None, Some (ErrWrap ''upload failed''
                          (ErrWrap ''upload error (out/b.txt)'' (ErrNew ''put refused'')))),
           directoryTrace @ [HttpDo ''PUT'' ''/artifacts/a1'' (Some ''state=ERROR;message=new;'')])
   \<and> http_Do directoryEnv directoryTrace ''PUT'' ''/artifacts/a1'' (Some ''state=ERROR;message=new;'')
       = Inl (ErrNew ''503 Service Unavailable'')
   \<and> putOutcome directoryEnv (butlast directoryTrace) (last directoryTrace) = Some (ErrNew ''put refused'')"
proof -
  let ?pp = "\<lparr>pp_Scheme = ''s3'', pp_Host = ''bkt'', pp_Path = ''p/artifacts/a1/'', pp_Filename = []\<rparr>"
  let ?a2 = "AList.update ''status'' (VMap [(''state'', VStr ''UPLOADING''), (''message'', VStr ''new'')])
               annotatedArtifact"
  let ?h2 = "[HttpDo ''GET'' ''/artifacts/a1'' None,
              HttpDo ''PUT'' ''/artifacts/a1'' (Some ''state=UPLOADING;message=new;'')]"
  let ?err = "ErrWrap ''upload failed'' (ErrWrap ''upload error (out/b.txt)'' (ErrNew ''put refused''))"
  have a: "Upload_fetch directoryEnv noGlobals [] ''artifacts'' directoryRequest =
             Some (Inr ([], ''a1'', annotatedArtifact), [HttpDo ''GET'' ''/artifacts/a1'' None])"
    by (simp add: upload_defs upload_example_defs directory_example_defs)
  have b: "Upload_check directoryEnv annotatedArtifact = Inr ?pp"
    by (simp add: upload_defs upload_example_defs directory_example_defs)
  have c: "updateStatus directoryEnv [HttpDo ''GET'' ''/artifacts/a1'' None] directoryRequest ''artifacts'' ''a1''
             (if ([] :: string) \<noteq> [] then addRelationship annotatedArtifact ''produced_by'' []
              else annotatedArtifact)
             ''status'' [(''state'', VStr ''UPLOADING'')] = Some (None, ?a2, ?h2)"
    by (simp add: upload_defs upload_example_defs directory_example_defs)
  have d: "Upload_transfer directoryEnv ?h2 directoryRequest ?pp = (Inl ?err, directoryTrace)"
    by (simp add: upload_defs upload_example_defs directory_example_defs
          UploadS3Dir_def UploadS3Dir_file_def)
  have u: "updateStatus directoryEnv directoryTrace directoryRequest ''artifacts'' ''a1'' ?a2
             ''status'' [(''state'', VStr ''ERROR'')] =
           Some (Some (ErrWrapData ''failed to update artifact status with data''
                         [(''state'', VStr ''ERROR'')] (ErrNew ''503 Service Unavailable'')),
                 AList.update ''status'' (VMap [(''state'', VStr ''ERROR''), (''message'', VStr ''new'')])
                   annotatedArtifact,
                 directoryTrace @ [HttpDo ''PUT'' ''/artifacts/a1'' (Some ''state=ERROR;message=new;'')])"
    by (simp add: upload_defs upload_example_defs directory_example_defs)
  have pick: "\<exists>x y z. P x y z \<and> Q z" if "\<exists>x y z w. P x y z \<and> Q z \<and> R x y z w" for P Q R
    using that by blast
  note failure = Upload_transfer_failure [OF a b c d, THEN conjunct1, rule_format, OF refl]
  from pick [OF failure] obtain ignored artifact3 h4 where
    "updateStatus directoryEnv directoryTrace directoryRequest ''artifacts'' ''a1'' ?a2
       ''status'' [(''state'', VStr ''ERROR'')] = Some (ignored, artifact3, h4)"
    and "Upload directoryEnv noGlobals [] ''artifacts'' directoryRequest = Some ((None, Some ?err), h4)"
    by (elim exE conjE)
  then have 1: "Upload directoryEnv noGlobals [] ''artifacts'' directoryRequest =
     Some ((None, Some ?err),
           directoryTrace @ [HttpDo ''PUT'' ''/artifacts/a1'' (Some ''state=ERROR;message=new;'')])"
    using u by simp
  have 2: "http_Do directoryEnv directoryTrace ''PUT'' ''/artifacts/a1'' (Some ''state=ERROR;message=new;'')
       = Inl (ErrNew ''503 Service Unavailable'')"
    by (simp add: directoryEnv_def)
  have 3: "putOutcome directoryEnv (butlast directoryTrace) (last directoryTrace)
             = Some (ErrNew ''put refused'')"
    by (simp add: directoryTrace_def directoryEnv_def)
  show ?thesis by (intro conjI; (rule 1 | rule 2 | rule 3))
qed


text \<open>
  C10 (amended).  The bucket is a field of the request and the two clients are
  arguments (\<open>E\<close>); of the process-wide \<^verbatim>\<open>viper\<close> store, \<^verbatim>\<open>Upload\<close> reads the run
  identifier (key \<^verbatim>\<open>run_id\<close>) and nothing else: two calls with the same arguments, the
  same collaborators and the same run identifier in the store do the same, whatever
  else the store holds.
\<close>

theorem Upload_reads_run_id:
  assumes "V RunId = V' RunId"
  shows "Upload E V h endpoint req = Upload E V' h endpoint req"
  using assms by (simp add: Upload_def Upload_fetch_def getRunKey_def)

theorem Upload_reads_run_id_witness:
  "Upload uploadEnv noGlobals [] ''artifacts'' existingRequest =
   Upload uploadEnv (noGlobals (''dhcore_endpoint'' := ''http://core'')) [] ''artifacts'' existingRequest"
proof -
  have "noGlobals RunId = (noGlobals (''dhcore_endpoint'' := ''http://core'')) RunId"
    by (simp add: noGlobals_def RunId_def)
  then show ?thesis by (rule Upload_reads_run_id)
qed

text \<open>
  The claim as the specification words it fails: with the same request and the same
  collaborators, a call made while the store holds a run identifier asks the Core API
  for the run, and a call made while it holds none does not.
\<close>

theorem Upload_depends_on_run_id:
  "Upload idleEnv noGlobals [] ''artifacts'' namelessRequest =
     Some ((None, Some (ErrNew ''name is required when creating a new artifact'')), [])
   \<and> Upload idleEnv (noGlobals (RunId := ''r1'')) [] ''artifacts'' namelessRequest =
     Some ((None, Some (ErrWrap ''failed to retrieve run'' (ErrNew ''run key not found in response''))),
           [HttpDo ''GET'' ''/runs/r1'' None])"
  by (simp add: upload_defs upload_example_defs namelessRequest_def TranslateEndpoint_def Resources_def)

section \<open>Properties of the download\<close>









end
